theory Spec2Isabelle
  imports Main "HOL-Library.Word" "HOL-Library.AList"
begin

section \<open>Common parts: clock, statistics, errors, base state (cache.go)\<close>

text \<open>
  Times (Go \<^verbatim>\<open>time.Time\<close>) and durations are integers (nanoseconds).
  Every operation takes the reading \<open>wall\<close> of \<^verbatim>\<open>time.Now()\<close> at the moment of the call;
  the configured clock is either the real clock, which returns that reading, or a fake clock, which
  returns its own field \<^verbatim>\<open>now\<close> and moves only by \<^verbatim>\<open>Advance\<close>.
\<close>

type_synonym time = int
type_synonym duration = int

datatype clock = RealClock | FakeClock time

fun Now :: "clock \<Rightarrow> time \<Rightarrow> time" where
  "Now RealClock wall = wall"
| "Now (FakeClock t) wall = t"

fun Advance :: "duration \<Rightarrow> clock \<Rightarrow> clock" where
  "Advance d RealClock = RealClock"
| "Advance d (FakeClock t) = FakeClock (t + d)"

text \<open>The error values of the API: the sentinel, the error synthesised from a recovered loader
  panic, and any error a user loader returns.\<close>

datatype error = KeyNotFoundError | LoaderPanics | UserError nat

text \<open>What a call of the user's \<^verbatim>\<open>LoaderExpireFunc\<close> does: it returns a value with an optional
  duration, returns an error, or panics.\<close>

datatype 'v loaded = Loaded 'v "duration option" | Failed error | Aborted

text \<open>The statistics: two \<^verbatim>\<open>uint64\<close> counters, incremented by \<^verbatim>\<open>atomic.AddUint64\<close>.\<close>

record stats =
  hitCount :: "64 word"
  missCount :: "64 word"

definition IncrHitCount :: "stats \<Rightarrow> stats" where
  "IncrHitCount s = s\<lparr>hitCount := hitCount s + 1\<rparr>"

definition IncrMissCount :: "stats \<Rightarrow> stats" where
  "IncrMissCount s = s\<lparr>missCount := missCount s + 1\<rparr>"

definition LookupCount :: "stats \<Rightarrow> 64 word" where
  "LookupCount s = hitCount s + missCount s"

text \<open>The user callbacks are recorded as the sequence of their invocations (latest last).\<close>

datatype ('k, 'v) event = Evicted 'k 'v | Added 'k 'v

text \<open>A \<^verbatim>\<open>sync.RWMutex\<close>: the number of readers holding it and whether a writer holds it.\<close>

record rwmutex =
  readers :: nat
  writer :: bool

text \<open>An in-flight call of the single-flight group: the counter of its wait group and the
  result stored by the call.\<close>

record 'v call =
  wg :: nat
  cval :: "'v option"
  cerr :: "error option"

text \<open>The ways a call can end other than by returning: a run-time panic, a fatal error of the
  runtime, or waiting for another thread of execution.\<close>

datatype panic = NilDereference | LFUUnreachable | UnlockOfUnlockedRWMutex | RUnlockOfUnlockedRWMutex

text \<open>The bodies of the operations return or panic; a call of the API can also wait.\<close>

datatype ('a, 's) result = Ret 'a 's | Panic panic 's

datatype ('a, 's) outcome = Returns 'a 's | Panics panic 's | Blocks 's

fun final :: "('a, 's) outcome \<Rightarrow> 's" where
  "final (Returns a s) = s"
| "final (Panics p s) = s"
| "final (Blocks s) = s"

fun lift :: "('a, 's) result \<Rightarrow> ('a, 's) outcome" where
  "lift (Ret a s) = Returns a s"
| "lift (Panic p s) = Panics p s"

text \<open>\<^verbatim>\<open>baseCache\<close>. The fields \<^verbatim>\<open>size\<close> and \<^verbatim>\<open>expiration\<close> are \<open>csize\<close> and \<open>cexpiration\<close> here;
  \<open>evictedFunc\<close> and \<open>addedFunc\<close> say whether the callback is configured, and \<open>calls\<close> is the
  record of the invocations; \<open>group\<close> is the map \<^verbatim>\<open>Group.m\<close>.\<close>

record ('k, 'v) baseCache =
  clock :: clock
  csize :: int
  loaderExpireFunc :: "('k \<Rightarrow> 'v loaded) option"
  evictedFunc :: bool
  addedFunc :: bool
  cexpiration :: "duration option"
  mu :: rwmutex
  group :: "'k \<rightharpoonup> 'v call"
  stats :: stats
  calls :: "('k, 'v) event list"

definition call_evictedFunc :: "'k \<Rightarrow> 'v \<Rightarrow> ('k, 'v, 'z) baseCache_scheme \<Rightarrow> ('k, 'v, 'z) baseCache_scheme" where
  "call_evictedFunc k v c = (if evictedFunc c then c\<lparr>calls := calls c @ [Evicted k v]\<rparr> else c)"

definition call_addedFunc :: "'k \<Rightarrow> 'v \<Rightarrow> ('k, 'v, 'z) baseCache_scheme \<Rightarrow> ('k, 'v, 'z) baseCache_scheme" where
  "call_addedFunc k v c = (if addedFunc c then c\<lparr>calls := calls c @ [Added k v]\<rparr> else c)"

definition count_hit :: "bool \<Rightarrow> ('k, 'v, 'z) baseCache_scheme \<Rightarrow> ('k, 'v, 'z) baseCache_scheme" where
  "count_hit onLoad c = (if \<not> onLoad then c\<lparr>stats := IncrHitCount (stats c)\<rparr> else c)"

definition count_miss :: "bool \<Rightarrow> ('k, 'v, 'z) baseCache_scheme \<Rightarrow> ('k, 'v, 'z) baseCache_scheme" where
  "count_miss onLoad c = (if \<not> onLoad then c\<lparr>stats := IncrMissCount (stats c)\<rparr> else c)"

text \<open>The items. \<^verbatim>\<open>simpleItem\<close> has a value and an optional expiration time; \<^verbatim>\<open>lruItem\<close> and
  \<^verbatim>\<open>arcItem\<close> add the key, \<^verbatim>\<open>lfuItem\<close> adds the handle of its frequency bucket. The field
  \<^verbatim>\<open>clock\<close> of an item is the clock of its cache, so \<open>IsExpired\<close> takes that clock's reading
  as an argument; \<open>now\<close> is the optional explicit time of the Go method.\<close>

record 'v simpleItem =
  val :: 'v
  expiration :: "time option"

record ('k, 'v) lruItem = "'v simpleItem" +
  key :: 'k

type_synonym ('k, 'v) arcItem = "('k, 'v) lruItem"

definition IsExpired :: "time \<Rightarrow> time option \<Rightarrow> ('v, 'z) simpleItem_scheme \<Rightarrow> bool" where
  "IsExpired clock_now now it =
     (case expiration it of
        None \<Rightarrow> False
      | Some e \<Rightarrow> (case now of None \<Rightarrow> e < clock_now | Some n \<Rightarrow> e < n))"

section \<open>The single-flight group and the loader path\<close>

text \<open>\<^verbatim>\<open>Group.call\<close>: run \<open>fn\<close>, store its result in the call, signal the wait group, delete the
  call from the map. The state is the cache that owns the group.\<close>

definition Group_call ::
  "'k \<Rightarrow> (('k, 'v, 'z) baseCache_scheme \<Rightarrow> ('v option \<times> error option) \<times> ('k, 'v, 'z) baseCache_scheme)
     \<Rightarrow> ('k, 'v, 'z) baseCache_scheme \<Rightarrow> ('v option \<times> error option) \<times> ('k, 'v, 'z) baseCache_scheme" where
  "Group_call k fn g =
     (case fn g of
        ((v, e), g1) \<Rightarrow>
          (let g2 = g1\<lparr>group := (group g1)(k \<mapsto> \<lparr>wg = 0, cval = v, cerr = e\<rparr>)\<rparr>
           in ((v, e), g2\<lparr>group := (group g2)(k := None)\<rparr>)))"

text \<open>\<^verbatim>\<open>Group.Do\<close>. \<open>get\<close> is the method \<^verbatim>\<open>get\<close> of the cache of the group. With \<open>isWait\<close> false
  and no call in flight the new call is left in the map with its wait group at 1: it stands for the
  goroutine \<^verbatim>\<open>go g.call(c, key, fn)\<close>, which \<open>Group_call\<close> runs.\<close>

definition Do ::
  "('k \<Rightarrow> bool \<Rightarrow> ('k, 'v, 'z) baseCache_scheme \<Rightarrow> ('v option \<times> error option, ('k, 'v, 'z) baseCache_scheme) result)
     \<Rightarrow> 'k \<Rightarrow> (('k, 'v, 'z) baseCache_scheme \<Rightarrow> ('v option \<times> error option) \<times> ('k, 'v, 'z) baseCache_scheme)
     \<Rightarrow> bool \<Rightarrow> ('k, 'v, 'z) baseCache_scheme
     \<Rightarrow> ('v option \<times> bool \<times> error option, ('k, 'v, 'z) baseCache_scheme) outcome" where
  "Do get k fn isWait g =
     (case get k True g of
        Panic p g1 \<Rightarrow> Panics p g1
      | Ret (v, err) g1 \<Rightarrow>
          if err = None then Returns (v, False, None) g1
          else (case group g1 k of
              Some c \<Rightarrow>
                if \<not> isWait then Returns (None, False, Some KeyNotFoundError) g1
                else if wg c > 0 then Blocks g1
                else Returns (cval c, False, cerr c) g1
            | None \<Rightarrow>
                (let g2 = g1\<lparr>group := (group g1)(k \<mapsto> \<lparr>wg = 1, cval = None, cerr = None\<rparr>)\<rparr>
                 in if \<not> isWait then Returns (None, False, Some KeyNotFoundError) g2
                    else (case Group_call k fn g2 of ((v, e), g3) \<Rightarrow> Returns (v, True, e) g3))))"

text \<open>The closure that \<^verbatim>\<open>baseCache.load\<close> passes to \<open>Do\<close>: call the loader, pass what it returns
  (an error, or a value with an optional duration) to the callback \<open>cb\<close> of the policy, and turn
  a panic of either into the error \<open>LoaderPanics\<close>.\<close>

definition load_fn ::
  "(error + 'v \<times> duration option \<Rightarrow> ('k, 'v, 'z) baseCache_scheme \<Rightarrow> ('v option \<times> error option, ('k, 'v, 'z) baseCache_scheme) result)
     \<Rightarrow> 'k \<Rightarrow> ('k, 'v, 'z) baseCache_scheme \<Rightarrow> ('v option \<times> error option) \<times> ('k, 'v, 'z) baseCache_scheme" where
  "load_fn cb k c =
     (case loaderExpireFunc c of
        None \<Rightarrow> ((None, Some LoaderPanics), c)
      | Some f \<Rightarrow>
          (case f k of
             Aborted \<Rightarrow> ((None, Some LoaderPanics), c)
           | Failed e \<Rightarrow>
               (case cb (Inl e) c of
                  Ret x c1 \<Rightarrow> (x, c1)
                | Panic p c1 \<Rightarrow> ((None, Some LoaderPanics), c1))
           | Loaded v exp \<Rightarrow>
               (case cb (Inr (v, exp)) c of
                  Ret x c1 \<Rightarrow> (x, c1)
                | Panic p c1 \<Rightarrow> ((None, Some LoaderPanics), c1))))"

definition load ::
  "('k \<Rightarrow> bool \<Rightarrow> ('k, 'v, 'z) baseCache_scheme \<Rightarrow> ('v option \<times> error option, ('k, 'v, 'z) baseCache_scheme) result)
     \<Rightarrow> (error + 'v \<times> duration option \<Rightarrow> ('k, 'v, 'z) baseCache_scheme \<Rightarrow> ('v option \<times> error option, ('k, 'v, 'z) baseCache_scheme) result)
     \<Rightarrow> 'k \<Rightarrow> bool \<Rightarrow> ('k, 'v, 'z) baseCache_scheme
     \<Rightarrow> ('v option \<times> bool \<times> error option, ('k, 'v, 'z) baseCache_scheme) outcome" where
  "load get cb k isWait c =
     (case Do get k (load_fn cb k) isWait c of
        Returns (v, called, err) c1 \<Rightarrow>
          if err \<noteq> None then Returns (None, called, err) c1 else Returns (v, called, None) c1
      | Panics p c1 \<Rightarrow> Panics p c1
      | Blocks c1 \<Rightarrow> Blocks c1)"

text \<open>\<^verbatim>\<open>getWithLoader\<close> has the same text in the four policies, up to the policy's \<open>get\<close> and its
  callback.\<close>

definition getWithLoader ::
  "('k \<Rightarrow> bool \<Rightarrow> ('k, 'v, 'z) baseCache_scheme \<Rightarrow> ('v option \<times> error option, ('k, 'v, 'z) baseCache_scheme) result)
     \<Rightarrow> (error + 'v \<times> duration option \<Rightarrow> ('k, 'v, 'z) baseCache_scheme \<Rightarrow> ('v option \<times> error option, ('k, 'v, 'z) baseCache_scheme) result)
     \<Rightarrow> 'k \<Rightarrow> bool \<Rightarrow> ('k, 'v, 'z) baseCache_scheme
     \<Rightarrow> ('v option \<times> error option, ('k, 'v, 'z) baseCache_scheme) outcome" where
  "getWithLoader get cb k isWait c =
     (if loaderExpireFunc c = None then Returns (None, Some KeyNotFoundError) c
      else case load get cb k isWait c of
          Returns (v, called, err) c1 \<Rightarrow>
            if err \<noteq> None then Returns (None, err) c1 else Returns (v, None) c1
        | Panics p c1 \<Rightarrow> Panics p c1
        | Blocks c1 \<Rightarrow> Blocks c1)"

section \<open>The ARC policy\<close>

text \<open>An \<^verbatim>\<open>arcList\<close> (a linked list of keys with an index of its elements) is the list of its
  keys, front first. \<open>RemoveTail\<close> of an empty list dereferences the nil element.\<close>

definition Has :: "'k \<Rightarrow> 'k list \<Rightarrow> bool" where
  "Has k l = (k \<in> set l)"

definition Len :: "'k list \<Rightarrow> int" where
  "Len l = int (length l)"

definition PushFront :: "'k \<Rightarrow> 'k list \<Rightarrow> 'k list" where
  "PushFront k l = (if k \<in> set l then k # remove1 k l else k # l)"

definition MoveToFront :: "'k \<Rightarrow> 'k list \<Rightarrow> 'k list" where
  "MoveToFront k l = (if k \<in> set l then k # remove1 k l else l)"

definition Remove :: "'k \<Rightarrow> 'k list \<Rightarrow> 'k list" where
  "Remove k l = remove1 k l"

definition RemoveTail :: "'k list \<Rightarrow> ('k \<times> 'k list) option" where
  "RemoveTail l = (if l = [] then None else Some (last l, butlast l))"

record ('k, 'v) ARCCache = "('k, 'v) baseCache" +
  arc_items :: "('k \<times> ('k, 'v) arcItem) list"
  part :: int
  t1 :: "'k list"
  t2 :: "'k list"
  b1 :: "'k list"
  b2 :: "'k list"

definition isCacheFull :: "('k, 'v) ARCCache \<Rightarrow> bool" where
  "isCacheFull c = (Len (t1 c) + Len (t2 c) = csize c)"

definition setPart :: "int \<Rightarrow> ('k, 'v) ARCCache \<Rightarrow> ('k, 'v) ARCCache" where
  "setPart p c = (if isCacheFull c then c\<lparr>part := p\<rparr> else c)"

text \<open>The end of \<open>replace\<close> and of the full-T1 branch of \<open>set\<close>: delete the entry of the popped
  key, if there is one, and call the evicted callback.\<close>

definition delete_item :: "'k \<Rightarrow> ('k, 'v) ARCCache \<Rightarrow> ('k, 'v) ARCCache" where
  "delete_item old c =
     (case map_of (arc_items c) old of
        None \<Rightarrow> c
      | Some item \<Rightarrow> call_evictedFunc (key item) (val item) (c\<lparr>arc_items := AList.delete old (arc_items c)\<rparr>))"

text \<open>The list \<open>replace\<close> pops: the three branches of its conditional.\<close>

datatype victim = FromT1 | FromT2 | FallbackT1

definition replace_victim :: "'k \<Rightarrow> ('k, 'v) ARCCache \<Rightarrow> victim" where
  "replace_victim k c =
     (if Len (t1 c) > 0 \<and> ((Has k (b2 c) \<and> Len (t1 c) = part c) \<or> Len (t1 c) > part c) then FromT1
      else if Len (t2 c) > 0 then FromT2
      else FallbackT1)"

definition replace :: "'k \<Rightarrow> ('k, 'v) ARCCache \<Rightarrow> (unit, ('k, 'v) ARCCache) result" where
  "replace k c =
     (if \<not> isCacheFull c then Ret () c
      else case replace_victim k c of
          FromT2 \<Rightarrow>
            (case RemoveTail (t2 c) of
               None \<Rightarrow> Panic NilDereference c
             | Some (old, l) \<Rightarrow> Ret () (delete_item old (c\<lparr>t2 := l, b2 := PushFront old (b2 c)\<rparr>)))
        | _ \<Rightarrow>
            (case RemoveTail (t1 c) of
               None \<Rightarrow> Panic NilDereference c
             | Some (old, l) \<Rightarrow> Ret () (delete_item old (c\<lparr>t1 := l, b1 := PushFront old (b1 c)\<rparr>))))"

text \<open>\<^verbatim>\<open>ARCCache.set\<close>, first part: the entry of the key is overwritten or created, and given the
  default expiration if one is configured.\<close>

definition ARC_upsert :: "time \<Rightarrow> 'k \<Rightarrow> 'v \<Rightarrow> ('k, 'v) ARCCache \<Rightarrow> ('k, 'v) arcItem \<times> ('k, 'v) ARCCache" where
  "ARC_upsert wall k v c =
     (let item0 = (case map_of (arc_items c) k of
                     Some it \<Rightarrow> it\<lparr>val := v\<rparr>
                   | None \<Rightarrow> \<lparr>val = v, expiration = None, key = k\<rparr>);
          item = (case cexpiration c of
                    None \<Rightarrow> item0
                  | Some d \<Rightarrow> item0\<lparr>expiration := Some (Now (clock c) wall + d)\<rparr>)
      in (item, c\<lparr>arc_items := AList.update k item (arc_items c)\<rparr>))"

text \<open>\<^verbatim>\<open>ARCCache.set\<close>, the conditional for a key that is in neither ghost list (lines 216 to 242).\<close>

definition ARC_set_room :: "'k \<Rightarrow> ('k, 'v) ARCCache \<Rightarrow> (unit, ('k, 'v) ARCCache) result" where
  "ARC_set_room k c =
     (if isCacheFull c \<and> Len (t1 c) + Len (b1 c) = csize c then
        (if Len (t1 c) < csize c then
           (case RemoveTail (b1 c) of
              None \<Rightarrow> Panic NilDereference c
            | Some (old, l) \<Rightarrow> replace k (c\<lparr>b1 := l\<rparr>))
         else
           (case RemoveTail (t1 c) of
              None \<Rightarrow> Panic NilDereference c
            | Some (pop, l) \<Rightarrow> Ret () (delete_item pop (c\<lparr>t1 := l\<rparr>))))
      else
        (let total = Len (t1 c) + Len (t2 c) + Len (b1 c) + Len (b2 c)
         in if total \<ge> csize c then
              (if total = 2 * csize c then
                 (if Len (b2 c) > 0 then
                    (case RemoveTail (b2 c) of
                       None \<Rightarrow> Panic NilDereference c
                     | Some (old, l) \<Rightarrow> replace k (c\<lparr>b2 := l\<rparr>))
                  else
                    (case RemoveTail (b1 c) of
                       None \<Rightarrow> Panic NilDereference c
                     | Some (old, l) \<Rightarrow> replace k (c\<lparr>b1 := l\<rparr>)))
               else replace k c)
            else Ret () c))"

definition ARC_set :: "time \<Rightarrow> 'k \<Rightarrow> 'v \<Rightarrow> ('k, 'v) ARCCache \<Rightarrow> (('k, 'v) arcItem, ('k, 'v) ARCCache) result" where
  "ARC_set wall k v c0 =
     (case ARC_upsert wall k v c0 of
        (item, c) \<Rightarrow>
          if Has k (t1 c) \<and> Has k (t2 c) then Ret item c
          else if Has k (b1 c) then
            (case replace k (setPart (min (csize c) (part c + max (Len (b2 c) div Len (b1 c)) 1)) c) of
               Panic p c1 \<Rightarrow> Panic p c1
             | Ret u c1 \<Rightarrow> Ret item (c1\<lparr>b1 := Remove k (b1 c1), t2 := PushFront k (t2 c1)\<rparr>))
          else if Has k (b2 c) then
            (case replace k (setPart (max 0 (part c - max (Len (b1 c) div Len (b2 c)) 1)) c) of
               Panic p c1 \<Rightarrow> Panic p c1
             | Ret u c1 \<Rightarrow> Ret item (c1\<lparr>b2 := Remove k (b2 c1), t2 := PushFront k (t2 c1)\<rparr>))
          else
            (case ARC_set_room k c of
               Panic p c1 \<Rightarrow> Panic p c1
             | Ret u c1 \<Rightarrow>
                 (let c2 = call_addedFunc k v c1
                  in Ret item (c2\<lparr>t1 := PushFront k (t1 c2)\<rparr>))))"

text \<open>The assignment \<^verbatim>\<open>item.expiration = &t\<close> through the pointer that \<open>set\<close> returned: the map
  sees it when it still holds that item under the key.\<close>

definition ARC_expire_at :: "'k \<Rightarrow> time \<Rightarrow> ('k, 'v) ARCCache \<Rightarrow> ('k, 'v) ARCCache" where
  "ARC_expire_at k t c =
     (case map_of (arc_items c) k of
        None \<Rightarrow> c
      | Some it \<Rightarrow> c\<lparr>arc_items := AList.update k (it\<lparr>expiration := Some t\<rparr>) (arc_items c)\<rparr>)"

definition ARC_Set :: "time \<Rightarrow> 'k \<Rightarrow> 'v \<Rightarrow> ('k, 'v) ARCCache \<Rightarrow> (error option, ('k, 'v) ARCCache) result" where
  "ARC_Set wall k v c =
     (case ARC_set wall k v c of
        Panic p c1 \<Rightarrow> Panic p c1
      | Ret item c1 \<Rightarrow> Ret None c1)"

definition ARC_SetWithExpire ::
  "time \<Rightarrow> 'k \<Rightarrow> 'v \<Rightarrow> duration \<Rightarrow> ('k, 'v) ARCCache \<Rightarrow> (error option, ('k, 'v) ARCCache) result" where
  "ARC_SetWithExpire wall k v d c =
     (case ARC_set wall k v c of
        Panic p c1 \<Rightarrow> Panic p c1
      | Ret item c1 \<Rightarrow> Ret None (ARC_expire_at k (Now (clock c1) wall + d) c1))"

text \<open>\<^verbatim>\<open>ARCCache.getValue\<close>. The entry of a key found in T1 or T2 is read without a check: when
  the map has none, \<^verbatim>\<open>item.IsExpired\<close> dereferences nil.\<close>

definition ARC_getValue_t2 ::
  "time \<Rightarrow> 'k \<Rightarrow> bool \<Rightarrow> ('k, 'v) ARCCache \<Rightarrow> ('v option \<times> error option, ('k, 'v) ARCCache) result" where
  "ARC_getValue_t2 wall k onLoad c =
     (if Has k (t2 c) then
        (case map_of (arc_items c) k of
           None \<Rightarrow> Panic NilDereference c
         | Some item \<Rightarrow>
             if \<not> IsExpired (Now (clock c) wall) None item then
               Ret (Some (val item), None) (count_hit onLoad (c\<lparr>t2 := MoveToFront k (t2 c)\<rparr>))
             else
               Ret (None, Some KeyNotFoundError)
                 (count_miss onLoad
                   (call_evictedFunc (key item) (val item)
                     (c\<lparr>arc_items := AList.delete k (arc_items c),
                        t2 := Remove k (t2 c), b2 := PushFront k (b2 c)\<rparr>))))
      else Ret (None, Some KeyNotFoundError) (count_miss onLoad c))"

definition ARC_getValue ::
  "time \<Rightarrow> 'k \<Rightarrow> bool \<Rightarrow> ('k, 'v) ARCCache \<Rightarrow> ('v option \<times> error option, ('k, 'v) ARCCache) result" where
  "ARC_getValue wall k onLoad c =
     (if Has k (t1 c) then
        (let c1 = c\<lparr>t1 := Remove k (t1 c)\<rparr>
         in case map_of (arc_items c1) k of
              None \<Rightarrow> Panic NilDereference c1
            | Some item \<Rightarrow>
                if \<not> IsExpired (Now (clock c1) wall) None item then
                  Ret (Some (val item), None) (count_hit onLoad (c1\<lparr>t2 := PushFront k (t2 c1)\<rparr>))
                else
                  ARC_getValue_t2 wall k onLoad
                    (call_evictedFunc (key item) (val item)
                      (c1\<lparr>arc_items := AList.delete k (arc_items c1), b1 := PushFront k (b1 c1)\<rparr>)))
      else ARC_getValue_t2 wall k onLoad c)"

definition ARC_get ::
  "time \<Rightarrow> 'k \<Rightarrow> bool \<Rightarrow> ('k, 'v) ARCCache \<Rightarrow> ('v option \<times> error option, ('k, 'v) ARCCache) result" where
  "ARC_get wall k onLoad c =
     (case ARC_getValue wall k onLoad c of
        Panic p c1 \<Rightarrow> Panic p c1
      | Ret (v, err) c1 \<Rightarrow> if err \<noteq> None then Ret (None, err) c1 else Ret (v, None) c1)"

text \<open>The callback that \<^verbatim>\<open>ARCCache.getWithLoader\<close> passes to \<open>load\<close>.\<close>

definition ARC_cb ::
  "time \<Rightarrow> 'k \<Rightarrow> error + 'v \<times> duration option \<Rightarrow> ('k, 'v) ARCCache
     \<Rightarrow> ('v option \<times> error option, ('k, 'v) ARCCache) result" where
  "ARC_cb wall k r c =
     (case r of
        Inl e \<Rightarrow> Ret (None, Some e) c
      | Inr (v, exp) \<Rightarrow>
          (case ARC_set wall k v c of
             Panic p c1 \<Rightarrow> Panic p c1
           | Ret item c1 \<Rightarrow>
               Ret (Some v, None)
                 (case exp of None \<Rightarrow> c1 | Some d \<Rightarrow> ARC_expire_at k (Now (clock c1) wall + d) c1)))"

definition ARC_getWithLoader ::
  "time \<Rightarrow> 'k \<Rightarrow> bool \<Rightarrow> ('k, 'v) ARCCache \<Rightarrow> ('v option \<times> error option, ('k, 'v) ARCCache) outcome" where
  "ARC_getWithLoader wall k isWait c = getWithLoader (ARC_get wall) (ARC_cb wall k) k isWait c"

definition ARC_Get ::
  "time \<Rightarrow> 'k \<Rightarrow> ('k, 'v) ARCCache \<Rightarrow> ('v option \<times> error option, ('k, 'v) ARCCache) outcome" where
  "ARC_Get wall k c =
     (case ARC_get wall k False c of
        Panic p c1 \<Rightarrow> Panics p c1
      | Ret (v, err) c1 \<Rightarrow>
          if err = Some KeyNotFoundError then ARC_getWithLoader wall k True c1
          else Returns (v, None) c1)"

definition ARC_GetIfPresent ::
  "time \<Rightarrow> 'k \<Rightarrow> ('k, 'v) ARCCache \<Rightarrow> ('v option \<times> error option, ('k, 'v) ARCCache) outcome" where
  "ARC_GetIfPresent wall k c =
     (case ARC_get wall k False c of
        Panic p c1 \<Rightarrow> Panics p c1
      | Ret (v, err) c1 \<Rightarrow>
          if err = Some KeyNotFoundError then ARC_getWithLoader wall k False c1
          else Returns (v, None) c1)"

text \<open>The goroutine that a deferred load of \<open>k\<close> started.\<close>

definition ARC_background :: "time \<Rightarrow> 'k \<Rightarrow> ('k, 'v) ARCCache \<Rightarrow> ('k, 'v) ARCCache" where
  "ARC_background wall k c = snd (Group_call k (load_fn (ARC_cb wall k) k) c)"

text \<open>\<^verbatim>\<open>ARCCache.remove\<close>. The callback is passed \<^verbatim>\<open>item.value\<close> of the entry read from the map
  without a check.\<close>

definition ARC_remove :: "'k \<Rightarrow> ('k, 'v) ARCCache \<Rightarrow> (bool, ('k, 'v) ARCCache) result" where
  "ARC_remove k c =
     (if Has k (t1 c) then
        (let c1 = c\<lparr>t1 := Remove k (t1 c), arc_items := AList.delete k (arc_items c),
                     b1 := PushFront k (b1 c)\<rparr>
         in if evictedFunc c1 then
              (case map_of (arc_items c) k of
                 None \<Rightarrow> Panic NilDereference c1
               | Some item \<Rightarrow> Ret True (call_evictedFunc k (val item) c1))
            else Ret True c1)
      else if Has k (t2 c) then
        (let c1 = c\<lparr>t2 := Remove k (t2 c), arc_items := AList.delete k (arc_items c),
                     b2 := PushFront k (b2 c)\<rparr>
         in if evictedFunc c1 then
              (case map_of (arc_items c) k of
                 None \<Rightarrow> Panic NilDereference c1
               | Some item \<Rightarrow> Ret True (call_evictedFunc k (val item) c1))
            else Ret True c1)
      else Ret False c)"

definition ARC_Remove :: "'k \<Rightarrow> ('k, 'v) ARCCache \<Rightarrow> (bool, ('k, 'v) ARCCache) result" where
  "ARC_Remove k c = ARC_remove k c"

text \<open>\<^verbatim>\<open>newARCCache\<close> on a builder with the given size: \<^verbatim>\<open>buildCache\<close> and \<^verbatim>\<open>init\<close>.\<close>

definition buildCache ::
  "clock \<Rightarrow> int \<Rightarrow> ('k \<Rightarrow> 'v loaded) option \<Rightarrow> bool \<Rightarrow> bool \<Rightarrow> duration option \<Rightarrow> ('k, 'v) baseCache" where
  "buildCache cl n ld ev ad ex =
     \<lparr>clock = cl, csize = n, loaderExpireFunc = ld, evictedFunc = ev, addedFunc = ad,
      cexpiration = ex, mu = \<lparr>readers = 0, writer = False\<rparr>, group = Map.empty,
      stats = \<lparr>hitCount = 0, missCount = 0\<rparr>, calls = []\<rparr>"

definition newARCCache :: "('k, 'v) baseCache \<Rightarrow> ('k, 'v) ARCCache" where
  "newARCCache cb =
     \<lparr>clock = clock cb, csize = csize cb, loaderExpireFunc = loaderExpireFunc cb,
      evictedFunc = evictedFunc cb, addedFunc = addedFunc cb, cexpiration = cexpiration cb,
      mu = mu cb, group = group cb, stats = stats cb, calls = calls cb,
      arc_items = [], part = 0, t1 = [], t2 = [], b1 = [], b2 = []\<rparr>"

subsection \<open>The invariants of the ARC lists\<close>

definition arc_disjoint :: "('k, 'v) ARCCache \<Rightarrow> bool" where
  "arc_disjoint c \<longleftrightarrow>
     set (t1 c) \<inter> set (t2 c) = {} \<and> set (t1 c) \<inter> set (b1 c) = {} \<and> set (t1 c) \<inter> set (b2 c) = {}
   \<and> set (t2 c) \<inter> set (b1 c) = {} \<and> set (t2 c) \<inter> set (b2 c) = {} \<and> set (b1 c) \<inter> set (b2 c) = {}"

definition arc_resident_bound :: "('k, 'v) ARCCache \<Rightarrow> bool" where
  "arc_resident_bound c \<longleftrightarrow> Len (t1 c) + Len (t2 c) \<le> csize c"

definition arc_l1_bound :: "('k, 'v) ARCCache \<Rightarrow> bool" where
  "arc_l1_bound c \<longleftrightarrow> Len (t1 c) + Len (b1 c) \<le> csize c"

definition arc_total_bound :: "('k, 'v) ARCCache \<Rightarrow> bool" where
  "arc_total_bound c \<longleftrightarrow> Len (t1 c) + Len (t2 c) + Len (b1 c) + Len (b2 c) \<le> 2 * csize c"

definition arc_map_keys :: "('k, 'v) ARCCache \<Rightarrow> bool" where
  "arc_map_keys c \<longleftrightarrow> fst ` set (arc_items c) = set (t1 c) \<union> set (t2 c)"

text \<open>The five invariants of the specification.\<close>

definition arc_five :: "('k, 'v) ARCCache \<Rightarrow> bool" where
  "arc_five c \<longleftrightarrow>
     arc_disjoint c \<and> arc_resident_bound c \<and> arc_l1_bound c \<and> arc_total_bound c \<and> arc_map_keys c"

text \<open>No list and no map holds a key twice: \<^verbatim>\<open>arcList.PushFront\<close> and the Go map see to that.\<close>

definition arc_distinct :: "('k, 'v) ARCCache \<Rightarrow> bool" where
  "arc_distinct c \<longleftrightarrow>
     distinct (t1 c) \<and> distinct (t2 c) \<and> distinct (b1 c) \<and> distinct (b2 c)
   \<and> distinct (map fst (arc_items c))"

text \<open>The invariants without the bound on T1 and B1, for a cache built with a positive size.\<close>

definition arc_inv :: "('k, 'v) ARCCache \<Rightarrow> bool" where
  "arc_inv c \<longleftrightarrow>
     0 < csize c \<and> arc_distinct c \<and> arc_disjoint c \<and> arc_resident_bound c \<and> arc_total_bound c
   \<and> arc_map_keys c"

fun state_of :: "('a, 's) result \<Rightarrow> 's" where
  "state_of (Ret a s) = s"
| "state_of (Panic p s) = s"

fun returned :: "('a, 's) result \<Rightarrow> 'a option" where
  "returned (Ret a s) = Some a"
| "returned (Panic p s) = None"


text \<open>The read-only queries take the lock of the cache, read, and release it. Taking a lock
  that is held makes the caller wait; releasing one that is not held is a fatal error.\<close>

definition RLock :: "rwmutex \<Rightarrow> rwmutex option" where
  "RLock m = (if writer m then None else Some (m\<lparr>readers := readers m + 1\<rparr>))"

definition RUnlock :: "rwmutex \<Rightarrow> panic + rwmutex" where
  "RUnlock m = (if readers m = 0 then Inl RUnlockOfUnlockedRWMutex else Inr (m\<lparr>readers := readers m - 1\<rparr>))"

definition Lock :: "rwmutex \<Rightarrow> rwmutex option" where
  "Lock m = (if writer m \<or> readers m > 0 then None else Some (m\<lparr>writer := True\<rparr>))"

definition Unlock :: "rwmutex \<Rightarrow> panic + rwmutex" where
  "Unlock m = (if \<not> writer m then Inl UnlockOfUnlockedRWMutex else Inr (m\<lparr>writer := False\<rparr>))"

definition under_lock ::
  "(rwmutex \<Rightarrow> rwmutex option) \<Rightarrow> (rwmutex \<Rightarrow> panic + rwmutex) \<Rightarrow> (('k, 'v, 'z) baseCache_scheme \<Rightarrow> 'a)
     \<Rightarrow> ('k, 'v, 'z) baseCache_scheme \<Rightarrow> ('a, ('k, 'v, 'z) baseCache_scheme) outcome" where
  "under_lock acquire release body c =
     (case acquire (mu c) of
        None \<Rightarrow> Blocks c
      | Some m \<Rightarrow>
          (let c1 = c\<lparr>mu := m\<rparr>; r = body c1
           in case release (mu c1) of
                Inl p \<Rightarrow> Panics p c1
              | Inr m' \<Rightarrow> Returns r (c1\<lparr>mu := m'\<rparr>)))"

text \<open>The bodies of the queries are the same in the four policies, on the map of the policy:
  \<open>has\<close> with the explicit time \<open>now\<close>, and the loops of \<^verbatim>\<open>Keys\<close>, \<^verbatim>\<open>Len\<close> and \<^verbatim>\<open>GetALL\<close> over
  the map. A Go map is modelled by an association list; the order of the list is the order in
  which \<^verbatim>\<open>range\<close> visits the map.\<close>

definition has :: "('k \<times> ('v, 'z) simpleItem_scheme) list \<Rightarrow> 'k \<Rightarrow> time \<Rightarrow> bool" where
  "has items k now =
     (case map_of items k of
        None \<Rightarrow> False
      | Some item \<Rightarrow> \<not> IsExpired now (Some now) item)"

definition keys_of :: "('k \<times> ('v, 'z) simpleItem_scheme) list \<Rightarrow> bool \<Rightarrow> time \<Rightarrow> 'k list" where
  "keys_of items checkExpired now =
     map fst (filter (\<lambda>(k, item). \<not> checkExpired \<or> has items k now) items)"

definition len_of :: "('k \<times> ('v, 'z) simpleItem_scheme) list \<Rightarrow> bool \<Rightarrow> time \<Rightarrow> int" where
  "len_of items checkExpired now =
     (if \<not> checkExpired then int (length items)
      else int (length (filter (\<lambda>(k, item). has items k now) items)))"

definition getall_of :: "('k \<times> ('v, 'z) simpleItem_scheme) list \<Rightarrow> bool \<Rightarrow> time \<Rightarrow> ('k \<times> 'v) list" where
  "getall_of items checkExpired now =
     map (\<lambda>(k, item). (k, val item)) (filter (\<lambda>(k, item). \<not> checkExpired \<or> has items k now) items)"

text \<open>In \<^verbatim>\<open>LFUCache.Len\<close> the loop tests the item itself.\<close>

definition len_of_items :: "('k \<times> ('v, 'z) simpleItem_scheme) list \<Rightarrow> bool \<Rightarrow> time \<Rightarrow> int" where
  "len_of_items items checkExpired now =
     (if \<not> checkExpired then int (length items)
      else int (length (filter (\<lambda>(k, item). \<not> IsExpired now (Some now) item) items)))"

definition ARC_GetALL :: "time \<Rightarrow> bool \<Rightarrow> ('k, 'v) ARCCache \<Rightarrow> (('k \<times> 'v) list, ('k, 'v) ARCCache) outcome" where
  "ARC_GetALL wall checkExpired = under_lock Lock Unlock (\<lambda>c. getall_of (arc_items c) checkExpired wall)"

definition ARC_Keys :: "time \<Rightarrow> bool \<Rightarrow> ('k, 'v) ARCCache \<Rightarrow> ('k list, ('k, 'v) ARCCache) outcome" where
  "ARC_Keys wall checkExpired = under_lock RLock RUnlock (\<lambda>c. keys_of (arc_items c) checkExpired wall)"

definition ARC_Len :: "time \<Rightarrow> bool \<Rightarrow> ('k, 'v) ARCCache \<Rightarrow> (int, ('k, 'v) ARCCache) outcome" where
  "ARC_Len wall checkExpired = under_lock RLock RUnlock (\<lambda>c. len_of (arc_items c) checkExpired wall)"

text \<open>\<^verbatim>\<open>ARCCache.Has\<close> takes the read lock and releases the write lock.\<close>

definition ARC_Has :: "time \<Rightarrow> 'k \<Rightarrow> ('k, 'v) ARCCache \<Rightarrow> (bool, ('k, 'v) ARCCache) outcome" where
  "ARC_Has wall k = under_lock RLock Unlock (\<lambda>c. has (arc_items c) k wall)"

section \<open>The SIMPLE policy (simple.go)\<close>

record ('k, 'v) SimpleCache = "('k, 'v) baseCache" +
  simple_items :: "('k \<times> 'v simpleItem) list"

definition newSimpleCache :: "('k, 'v) baseCache \<Rightarrow> ('k, 'v) SimpleCache" where
  "newSimpleCache cb =
     \<lparr>clock = clock cb, csize = csize cb, loaderExpireFunc = loaderExpireFunc cb,
      evictedFunc = evictedFunc cb, addedFunc = addedFunc cb, cexpiration = cexpiration cb,
      mu = mu cb, group = group cb, stats = stats cb, calls = calls cb,
      simple_items = []\<rparr>"

definition Simple_remove :: "'k \<Rightarrow> ('k, 'v) SimpleCache \<Rightarrow> bool \<times> ('k, 'v) SimpleCache" where
  "Simple_remove k sc =
     (case map_of (simple_items sc) k of
        Some item \<Rightarrow> (True, call_evictedFunc k (val item) (sc\<lparr>simple_items := AList.delete k (simple_items sc)\<rparr>))
      | None \<Rightarrow> (False, sc))"

text \<open>\<^verbatim>\<open>SimpleCache.evict\<close>: the loop chooses the keys, each \<^verbatim>\<open>defer sc.remove(key)\<close> runs when
  the function returns, the last deferred first.\<close>

fun Simple_victims :: "time \<Rightarrow> int \<Rightarrow> ('k \<times> 'v simpleItem) list \<Rightarrow> 'k list" where
  "Simple_victims now count [] = []"
| "Simple_victims now count ((k, item) # rest) =
     (if count \<le> 0 then []
      else if expiration item = None \<or> (case expiration item of Some e \<Rightarrow> now > e | None \<Rightarrow> False)
        then k # Simple_victims now (count - 1) rest
      else Simple_victims now count rest)"

definition Simple_evict :: "time \<Rightarrow> int \<Rightarrow> ('k, 'v) SimpleCache \<Rightarrow> ('k, 'v) SimpleCache" where
  "Simple_evict wall count sc =
     fold (\<lambda>k s. snd (Simple_remove k s))
       (rev (Simple_victims (Now (clock sc) wall) count (simple_items sc))) sc"

definition Simple_set ::
  "time \<Rightarrow> 'k \<Rightarrow> 'v \<Rightarrow> ('k, 'v) SimpleCache \<Rightarrow> ('v simpleItem, ('k, 'v) SimpleCache) result" where
  "Simple_set wall k v sc =
     (let (item0, sc1) =
            (case map_of (simple_items sc) k of
               Some it \<Rightarrow> (it\<lparr>val := v\<rparr>, sc)
             | None \<Rightarrow>
                 (\<lparr>val = v, expiration = None\<rparr>,
                  if int (length (simple_items sc)) \<ge> csize sc \<and> csize sc > 0
                  then Simple_evict wall 1 sc else sc));
          item = (case cexpiration sc1 of
                    None \<Rightarrow> item0
                  | Some d \<Rightarrow> item0\<lparr>expiration := Some (Now (clock sc1) wall + d)\<rparr>);
          sc2 = sc1\<lparr>simple_items := AList.update k item (simple_items sc1)\<rparr>
      in Ret item (call_addedFunc k v sc2))"

definition Simple_expire_at :: "'k \<Rightarrow> time \<Rightarrow> ('k, 'v) SimpleCache \<Rightarrow> ('k, 'v) SimpleCache" where
  "Simple_expire_at k t sc =
     (case map_of (simple_items sc) k of
        None \<Rightarrow> sc
      | Some it \<Rightarrow> sc\<lparr>simple_items := AList.update k (it\<lparr>expiration := Some t\<rparr>) (simple_items sc)\<rparr>)"

definition Simple_Set :: "time \<Rightarrow> 'k \<Rightarrow> 'v \<Rightarrow> ('k, 'v) SimpleCache \<Rightarrow> (error option, ('k, 'v) SimpleCache) result" where
  "Simple_Set wall k v sc =
     (case Simple_set wall k v sc of
        Panic p sc1 \<Rightarrow> Panic p sc1
      | Ret item sc1 \<Rightarrow> Ret None sc1)"

definition Simple_SetWithExpire ::
  "time \<Rightarrow> 'k \<Rightarrow> 'v \<Rightarrow> duration \<Rightarrow> ('k, 'v) SimpleCache \<Rightarrow> (error option, ('k, 'v) SimpleCache) result" where
  "Simple_SetWithExpire wall k v d sc =
     (case Simple_set wall k v sc of
        Panic p sc1 \<Rightarrow> Panic p sc1
      | Ret item sc1 \<Rightarrow> Ret None (Simple_expire_at k (Now (clock sc1) wall + d) sc1))"

definition Simple_getValue ::
  "time \<Rightarrow> 'k \<Rightarrow> bool \<Rightarrow> ('k, 'v) SimpleCache \<Rightarrow> ('v option \<times> error option, ('k, 'v) SimpleCache) result" where
  "Simple_getValue wall k onload sc =
     (case map_of (simple_items sc) k of
        Some item \<Rightarrow>
          if \<not> IsExpired (Now (clock sc) wall) None item
          then Ret (Some (val item), None) (count_hit onload sc)
          else Ret (None, Some KeyNotFoundError) (count_miss onload (snd (Simple_remove k sc)))
      | None \<Rightarrow> Ret (None, Some KeyNotFoundError) (count_miss onload sc))"

definition Simple_get ::
  "time \<Rightarrow> 'k \<Rightarrow> bool \<Rightarrow> ('k, 'v) SimpleCache \<Rightarrow> ('v option \<times> error option, ('k, 'v) SimpleCache) result" where
  "Simple_get wall k onLoad sc =
     (case Simple_getValue wall k onLoad sc of
        Panic p sc1 \<Rightarrow> Panic p sc1
      | Ret (v, err) sc1 \<Rightarrow> if err \<noteq> None then Ret (None, err) sc1 else Ret (v, None) sc1)"

definition Simple_cb ::
  "time \<Rightarrow> 'k \<Rightarrow> error + 'v \<times> duration option \<Rightarrow> ('k, 'v) SimpleCache
     \<Rightarrow> ('v option \<times> error option, ('k, 'v) SimpleCache) result" where
  "Simple_cb wall k r sc =
     (case r of
        Inl e \<Rightarrow> Ret (None, Some e) sc
      | Inr (v, exp) \<Rightarrow>
          (case Simple_set wall k v sc of
             Panic p sc1 \<Rightarrow> Panic p sc1
           | Ret item sc1 \<Rightarrow>
               Ret (Some v, None)
                 (case exp of None \<Rightarrow> sc1 | Some d \<Rightarrow> Simple_expire_at k (Now (clock sc1) wall + d) sc1)))"

definition Simple_getWithLoader ::
  "time \<Rightarrow> 'k \<Rightarrow> bool \<Rightarrow> ('k, 'v) SimpleCache \<Rightarrow> ('v option \<times> error option, ('k, 'v) SimpleCache) outcome" where
  "Simple_getWithLoader wall k isWait sc = getWithLoader (Simple_get wall) (Simple_cb wall k) k isWait sc"

definition Simple_Get ::
  "time \<Rightarrow> 'k \<Rightarrow> ('k, 'v) SimpleCache \<Rightarrow> ('v option \<times> error option, ('k, 'v) SimpleCache) outcome" where
  "Simple_Get wall k sc =
     (case Simple_get wall k False sc of
        Panic p sc1 \<Rightarrow> Panics p sc1
      | Ret (v, err) sc1 \<Rightarrow>
          if err = Some KeyNotFoundError then Simple_getWithLoader wall k True sc1
          else Returns (v, err) sc1)"

definition Simple_GetIfPresent ::
  "time \<Rightarrow> 'k \<Rightarrow> ('k, 'v) SimpleCache \<Rightarrow> ('v option \<times> error option, ('k, 'v) SimpleCache) outcome" where
  "Simple_GetIfPresent wall k sc =
     (case Simple_get wall k False sc of
        Panic p sc1 \<Rightarrow> Panics p sc1
      | Ret (v, err) sc1 \<Rightarrow>
          if err = Some KeyNotFoundError then Simple_getWithLoader wall k False sc1
          else Returns (v, None) sc1)"

definition Simple_background :: "time \<Rightarrow> 'k \<Rightarrow> ('k, 'v) SimpleCache \<Rightarrow> ('k, 'v) SimpleCache" where
  "Simple_background wall k sc = snd (Group_call k (load_fn (Simple_cb wall k) k) sc)"

definition Simple_Remove :: "'k \<Rightarrow> ('k, 'v) SimpleCache \<Rightarrow> bool \<times> ('k, 'v) SimpleCache" where
  "Simple_Remove k sc = Simple_remove k sc"

definition Simple_GetALL ::
  "time \<Rightarrow> bool \<Rightarrow> ('k, 'v) SimpleCache \<Rightarrow> (('k \<times> 'v) list, ('k, 'v) SimpleCache) outcome" where
  "Simple_GetALL wall checkExpired = under_lock RLock RUnlock (\<lambda>c. getall_of (simple_items c) checkExpired wall)"

definition Simple_Keys :: "time \<Rightarrow> bool \<Rightarrow> ('k, 'v) SimpleCache \<Rightarrow> ('k list, ('k, 'v) SimpleCache) outcome" where
  "Simple_Keys wall checkExpired = under_lock RLock RUnlock (\<lambda>c. keys_of (simple_items c) checkExpired wall)"

definition Simple_Len :: "time \<Rightarrow> bool \<Rightarrow> ('k, 'v) SimpleCache \<Rightarrow> (int, ('k, 'v) SimpleCache) outcome" where
  "Simple_Len wall checkExpired = under_lock RLock RUnlock (\<lambda>c. len_of (simple_items c) checkExpired wall)"

definition Simple_Has :: "time \<Rightarrow> 'k \<Rightarrow> ('k, 'v) SimpleCache \<Rightarrow> (bool, ('k, 'v) SimpleCache) outcome" where
  "Simple_Has wall k = under_lock Lock Unlock (\<lambda>c. has (simple_items c) k wall)"

section \<open>The LRU policy (lru.go)\<close>

text \<open>The map \<^verbatim>\<open>items\<close> sends a key to the node of \<^verbatim>\<open>evictList\<close> that holds the item of that
  key. Here \<open>lru_items\<close> sends the key to that item, and \<open>evictList\<close> is the list of the keys of the
  nodes, front first.\<close>

record ('k, 'v) LRUCache = "('k, 'v) baseCache" +
  lru_items :: "('k \<times> ('k, 'v) lruItem) list"
  evictList :: "'k list"

definition newLRUCache :: "('k, 'v) baseCache \<Rightarrow> ('k, 'v) LRUCache" where
  "newLRUCache cb =
     \<lparr>clock = clock cb, csize = csize cb, loaderExpireFunc = loaderExpireFunc cb,
      evictedFunc = evictedFunc cb, addedFunc = addedFunc cb, cexpiration = cexpiration cb,
      mu = mu cb, group = group cb, stats = stats cb, calls = calls cb,
      lru_items = [], evictList = []\<rparr>"

definition LRU_removeElement :: "'k \<Rightarrow> ('k, 'v) LRUCache \<Rightarrow> ('k, 'v) LRUCache" where
  "LRU_removeElement e c =
     (let c1 = c\<lparr>evictList := Remove e (evictList c)\<rparr>
      in case map_of (lru_items c1) e of
           None \<Rightarrow> c1
         | Some entry \<Rightarrow>
             call_evictedFunc (key entry) (val entry)
               (c1\<lparr>lru_items := AList.delete (key entry) (lru_items c1)\<rparr>))"

fun LRU_evict :: "nat \<Rightarrow> ('k, 'v) LRUCache \<Rightarrow> ('k, 'v) LRUCache" where
  "LRU_evict 0 c = c"
| "LRU_evict (Suc n) c =
     (if evictList c = [] then c
      else LRU_evict n (LRU_removeElement (last (evictList c)) c))"

definition LRU_set ::
  "time \<Rightarrow> 'k \<Rightarrow> 'v \<Rightarrow> ('k, 'v) LRUCache \<Rightarrow> (('k, 'v) lruItem, ('k, 'v) LRUCache) result" where
  "LRU_set wall k v c =
     (let (item0, c1) =
            (case map_of (lru_items c) k of
               Some it \<Rightarrow> (it\<lparr>val := v\<rparr>, c\<lparr>evictList := MoveToFront k (evictList c)\<rparr>)
             | None \<Rightarrow>
                 (let c' = (if Len (evictList c) \<ge> csize c then LRU_evict 1 c else c)
                  in (\<lparr>val = v, expiration = None, key = k\<rparr>, c'\<lparr>evictList := k # evictList c'\<rparr>)));
          item = (case cexpiration c1 of
                    None \<Rightarrow> item0
                  | Some d \<Rightarrow> item0\<lparr>expiration := Some (Now (clock c1) wall + d)\<rparr>);
          c2 = c1\<lparr>lru_items := AList.update k item (lru_items c1)\<rparr>
      in Ret item (call_addedFunc k v c2))"

definition LRU_expire_at :: "'k \<Rightarrow> time \<Rightarrow> ('k, 'v) LRUCache \<Rightarrow> ('k, 'v) LRUCache" where
  "LRU_expire_at k t c =
     (case map_of (lru_items c) k of
        None \<Rightarrow> c
      | Some it \<Rightarrow> c\<lparr>lru_items := AList.update k (it\<lparr>expiration := Some t\<rparr>) (lru_items c)\<rparr>)"

definition LRU_Set :: "time \<Rightarrow> 'k \<Rightarrow> 'v \<Rightarrow> ('k, 'v) LRUCache \<Rightarrow> (error option, ('k, 'v) LRUCache) result" where
  "LRU_Set wall k v c =
     (case LRU_set wall k v c of
        Panic p c1 \<Rightarrow> Panic p c1
      | Ret item c1 \<Rightarrow> Ret None c1)"

definition LRU_SetWithExpire ::
  "time \<Rightarrow> 'k \<Rightarrow> 'v \<Rightarrow> duration \<Rightarrow> ('k, 'v) LRUCache \<Rightarrow> (error option, ('k, 'v) LRUCache) result" where
  "LRU_SetWithExpire wall k v d c =
     (case LRU_set wall k v c of
        Panic p c1 \<Rightarrow> Panic p c1
      | Ret item c1 \<Rightarrow> Ret None (LRU_expire_at k (Now (clock c1) wall + d) c1))"

definition LRU_getValue ::
  "time \<Rightarrow> 'k \<Rightarrow> bool \<Rightarrow> ('k, 'v) LRUCache \<Rightarrow> ('v option \<times> error option, ('k, 'v) LRUCache) result" where
  "LRU_getValue wall k onLoad c =
     (case map_of (lru_items c) k of
        Some it \<Rightarrow>
          if \<not> IsExpired (Now (clock c) wall) None it
          then Ret (Some (val it), None) (count_hit onLoad (c\<lparr>evictList := MoveToFront k (evictList c)\<rparr>))
          else Ret (None, Some KeyNotFoundError) (count_miss onLoad (LRU_removeElement k c))
      | None \<Rightarrow> Ret (None, Some KeyNotFoundError) (count_miss onLoad c))"

definition LRU_get ::
  "time \<Rightarrow> 'k \<Rightarrow> bool \<Rightarrow> ('k, 'v) LRUCache \<Rightarrow> ('v option \<times> error option, ('k, 'v) LRUCache) result" where
  "LRU_get wall k onLoad c =
     (case LRU_getValue wall k onLoad c of
        Panic p c1 \<Rightarrow> Panic p c1
      | Ret (v, err) c1 \<Rightarrow> if err \<noteq> None then Ret (None, err) c1 else Ret (v, None) c1)"

definition LRU_cb ::
  "time \<Rightarrow> 'k \<Rightarrow> error + 'v \<times> duration option \<Rightarrow> ('k, 'v) LRUCache
     \<Rightarrow> ('v option \<times> error option, ('k, 'v) LRUCache) result" where
  "LRU_cb wall k r c =
     (case r of
        Inl e \<Rightarrow> Ret (None, Some e) c
      | Inr (v, exp) \<Rightarrow>
          (case LRU_set wall k v c of
             Panic p c1 \<Rightarrow> Panic p c1
           | Ret item c1 \<Rightarrow>
               Ret (Some v, None)
                 (case exp of None \<Rightarrow> c1 | Some d \<Rightarrow> LRU_expire_at k (Now (clock c1) wall + d) c1)))"

definition LRU_getWithLoader ::
  "time \<Rightarrow> 'k \<Rightarrow> bool \<Rightarrow> ('k, 'v) LRUCache \<Rightarrow> ('v option \<times> error option, ('k, 'v) LRUCache) outcome" where
  "LRU_getWithLoader wall k isWait c = getWithLoader (LRU_get wall) (LRU_cb wall k) k isWait c"

definition LRU_Get ::
  "time \<Rightarrow> 'k \<Rightarrow> ('k, 'v) LRUCache \<Rightarrow> ('v option \<times> error option, ('k, 'v) LRUCache) outcome" where
  "LRU_Get wall k c =
     (case LRU_get wall k False c of
        Panic p c1 \<Rightarrow> Panics p c1
      | Ret (v, err) c1 \<Rightarrow>
          if err = Some KeyNotFoundError then LRU_getWithLoader wall k True c1
          else Returns (v, err) c1)"

definition LRU_GetIfPresent ::
  "time \<Rightarrow> 'k \<Rightarrow> ('k, 'v) LRUCache \<Rightarrow> ('v option \<times> error option, ('k, 'v) LRUCache) outcome" where
  "LRU_GetIfPresent wall k c =
     (case LRU_get wall k False c of
        Panic p c1 \<Rightarrow> Panics p c1
      | Ret (v, err) c1 \<Rightarrow>
          if err = Some KeyNotFoundError then LRU_getWithLoader wall k False c1
          else Returns (v, err) c1)"

definition LRU_background :: "time \<Rightarrow> 'k \<Rightarrow> ('k, 'v) LRUCache \<Rightarrow> ('k, 'v) LRUCache" where
  "LRU_background wall k c = snd (Group_call k (load_fn (LRU_cb wall k) k) c)"

definition LRU_remove :: "'k \<Rightarrow> ('k, 'v) LRUCache \<Rightarrow> bool \<times> ('k, 'v) LRUCache" where
  "LRU_remove k c =
     (case map_of (lru_items c) k of
        Some ent \<Rightarrow> (True, LRU_removeElement k c)
      | None \<Rightarrow> (False, c))"

definition LRU_Remove :: "'k \<Rightarrow> ('k, 'v) LRUCache \<Rightarrow> bool \<times> ('k, 'v) LRUCache" where
  "LRU_Remove k c = LRU_remove k c"

definition LRU_GetALL ::
  "time \<Rightarrow> bool \<Rightarrow> ('k, 'v) LRUCache \<Rightarrow> (('k \<times> 'v) list, ('k, 'v) LRUCache) outcome" where
  "LRU_GetALL wall checkExpired = under_lock RLock RUnlock (\<lambda>c. getall_of (lru_items c) checkExpired wall)"

definition LRU_Keys :: "time \<Rightarrow> bool \<Rightarrow> ('k, 'v) LRUCache \<Rightarrow> ('k list, ('k, 'v) LRUCache) outcome" where
  "LRU_Keys wall checkExpired = under_lock RLock RUnlock (\<lambda>c. keys_of (lru_items c) checkExpired wall)"

definition LRU_Len :: "time \<Rightarrow> bool \<Rightarrow> ('k, 'v) LRUCache \<Rightarrow> (int, ('k, 'v) LRUCache) outcome" where
  "LRU_Len wall checkExpired = under_lock RLock RUnlock (\<lambda>c. len_of (lru_items c) checkExpired wall)"

definition LRU_Has :: "time \<Rightarrow> 'k \<Rightarrow> ('k, 'v) LRUCache \<Rightarrow> (bool, ('k, 'v) LRUCache) outcome" where
  "LRU_Has wall k = under_lock RLock RUnlock (\<lambda>c. has (lru_items c) k wall)"


section \<open>The LFU policy (lfu.go)\<close>

text \<open>A bucket (\<^verbatim>\<open>freqEntry\<close>) has a frequency, a Go \<^verbatim>\<open>uint\<close> (64 bits), and the set of its items.
  A pointer to an item is modelled by the key under which the map holds the item, so \<open>members\<close>
  is a list of keys. \<^verbatim>\<open>freqList\<close> is the list of its elements, front first, each a pair of the
  identity of the element (what an item's \<^verbatim>\<open>freqElement\<close> points to) and its bucket.\<close>

record 'k freqEntry =
  freq :: "64 word"
  members :: "'k list"

record ('k, 'v) lfuItem = "('k, 'v) lruItem" +
  freqElement :: nat

record ('k, 'v) LFUCache = "('k, 'v) baseCache" +
  lfu_items :: "('k \<times> ('k, 'v) lfuItem) list"
  freqList :: "(nat \<times> 'k freqEntry) list"

definition isRemovableFreqEntry :: "'k freqEntry \<Rightarrow> bool" where
  "isRemovableFreqEntry entry \<longleftrightarrow> freq entry \<noteq> 0 \<and> length (members entry) = 0"

definition newLFUCache :: "('k, 'v) baseCache \<Rightarrow> ('k, 'v) LFUCache" where
  "newLFUCache cb =
     \<lparr>clock = clock cb, csize = csize cb, loaderExpireFunc = loaderExpireFunc cb,
      evictedFunc = evictedFunc cb, addedFunc = addedFunc cb, cexpiration = cexpiration cb,
      mu = mu cb, group = group cb, stats = stats cb, calls = calls cb,
      lfu_items = [], freqList = [(0, \<lparr>freq = 0, members = []\<rparr>)]\<rparr>"

text \<open>The element that \<^verbatim>\<open>InsertAfter\<close> allocates is one that the list does not hold.\<close>

definition new_element :: "(nat \<times> 'k freqEntry) list \<Rightarrow> nat" where
  "new_element l = Suc (foldr max (map fst l) 0)"

text \<open>\<^verbatim>\<open>LFUCache.increment\<close> on the list: \<open>e\<close> is the element of the item, \<open>k\<close> the item, \<open>new\<close>
  the element to allocate. The result is the new list with the element that now holds the item,
  or the list at the panic of the \<^verbatim>\<open>default\<close> case, or nothing when the list has no element \<open>e\<close>.\<close>

datatype 'k moved = Moved nat "(nat \<times> 'k freqEntry) list" | Unreachable "(nat \<times> 'k freqEntry) list" | Dangling

definition no_bucket ::
  "nat \<Rightarrow> 'k freqEntry \<Rightarrow> 64 word \<Rightarrow> 'k \<Rightarrow> nat \<Rightarrow> (nat \<times> 'k freqEntry) list \<Rightarrow> 'k moved" where
  "no_bucket i cur1 nextFreq k new rest =
     (if isRemovableFreqEntry cur1
      then Moved i ((i, cur1\<lparr>freq := nextFreq, members := List.insert k (members cur1)\<rparr>) # rest)
      else Moved new ((i, cur1) # (new, \<lparr>freq = nextFreq, members = [k]\<rparr>) # rest))"

fun increment_at :: "nat \<Rightarrow> 'k \<Rightarrow> nat \<Rightarrow> (nat \<times> 'k freqEntry) list \<Rightarrow> 'k moved" where
  "increment_at e k new [] = Dangling"
| "increment_at e k new ((i, cur) # rest) =
     (if i = e then
        (let nextFreq = freq cur + 1;
             cur1 = cur\<lparr>members := removeAll k (members cur)\<rparr>
         in case rest of
              [] \<Rightarrow> no_bucket i cur1 nextFreq k new rest
            | (j, nx) # rest' \<Rightarrow>
                if freq nx > nextFreq then no_bucket i cur1 nextFreq k new rest
                else if freq nx = nextFreq then
                  (let nx1 = nx\<lparr>members := List.insert k (members nx)\<rparr>
                   in if isRemovableFreqEntry cur1 then Moved j ((j, nx1) # rest')
                      else Moved j ((i, cur1) # (j, nx1) # rest'))
                else Unreachable ((i, cur1) # rest))
      else (case increment_at e k new rest of
              Moved h l \<Rightarrow> Moved h ((i, cur) # l)
            | Unreachable l \<Rightarrow> Unreachable ((i, cur) # l)
            | Dangling \<Rightarrow> Dangling))"

definition LFU_increment :: "'k \<Rightarrow> ('k, 'v) LFUCache \<Rightarrow> (unit, ('k, 'v) LFUCache) result" where
  "LFU_increment k c =
     (case map_of (lfu_items c) k of
        None \<Rightarrow> Panic NilDereference c
      | Some item \<Rightarrow>
          (case increment_at (freqElement item) k (new_element (freqList c)) (freqList c) of
             Dangling \<Rightarrow> Panic NilDereference c
           | Unreachable l \<Rightarrow> Panic LFUUnreachable (c\<lparr>freqList := l\<rparr>)
           | Moved h l \<Rightarrow>
               Ret () (c\<lparr>freqList := l,
                         lfu_items := AList.update k (item\<lparr>freqElement := h\<rparr>) (lfu_items c)\<rparr>)))"

text \<open>\<^verbatim>\<open>LFUCache.removeItem\<close> on the list: delete the item from the bucket of element \<open>e\<close> and
  unlink the element if the bucket is then removable.\<close>

fun drop_member :: "nat \<Rightarrow> 'k \<Rightarrow> (nat \<times> 'k freqEntry) list \<Rightarrow> (nat \<times> 'k freqEntry) list option" where
  "drop_member e k [] = None"
| "drop_member e k ((i, entry) # rest) =
     (if i = e then
        (let entry1 = entry\<lparr>members := removeAll k (members entry)\<rparr>
         in Some (if isRemovableFreqEntry entry1 then rest else (i, entry1) # rest))
      else map_option ((#) (i, entry)) (drop_member e k rest))"

definition LFU_removeItem :: "'k \<Rightarrow> ('k, 'v) LFUCache \<Rightarrow> (unit, ('k, 'v) LFUCache) result" where
  "LFU_removeItem k c =
     (case map_of (lfu_items c) k of
        None \<Rightarrow> Panic NilDereference c
      | Some item \<Rightarrow>
          (case drop_member (freqElement item) k (freqList c) of
             None \<Rightarrow> Panic NilDereference c
           | Some l \<Rightarrow>
               Ret () (call_evictedFunc (key item) (val item)
                 (c\<lparr>lfu_items := AList.delete (key item) (lfu_items c), freqList := l\<rparr>))))"

fun LFU_removeItems :: "'k list \<Rightarrow> ('k, 'v) LFUCache \<Rightarrow> (unit, ('k, 'v) LFUCache) result" where
  "LFU_removeItems [] c = Ret () c"
| "LFU_removeItems (k # ks) c =
     (case LFU_removeItem k c of
        Panic p c1 \<Rightarrow> Panic p c1
      | Ret u c1 \<Rightarrow> LFU_removeItems ks c1)"

text \<open>\<^verbatim>\<open>LFUCache.evict\<close>. The outer loop walks the list from the front as it was on entry:
  \<open>removeItem\<close> unlinks only the bucket it empties, and \<^verbatim>\<open>Next\<close> of an unlinked element is nil,
  which ends the loop. The first argument is what is left of \<open>count\<close>.\<close>

fun LFU_evict_loop ::
  "nat \<Rightarrow> (nat \<times> 'k freqEntry) list \<Rightarrow> ('k, 'v) LFUCache \<Rightarrow> (unit, ('k, 'v) LFUCache) result" where
  "LFU_evict_loop 0 es c = Ret () c"
| "LFU_evict_loop (Suc n) [] c = Ret () c"
| "LFU_evict_loop (Suc n) ((e, entry) # es) c =
     (let victims = take (Suc n) (members entry)
      in case LFU_removeItems victims c of
           Panic p c1 \<Rightarrow> Panic p c1
         | Ret u c1 \<Rightarrow>
             if e \<notin> fst ` set (freqList c1) then Ret () c1
             else LFU_evict_loop (Suc n - length victims) es c1)"

definition LFU_evict :: "nat \<Rightarrow> ('k, 'v) LFUCache \<Rightarrow> (unit, ('k, 'v) LFUCache) result" where
  "LFU_evict count c = LFU_evict_loop count (freqList c) c"

definition LFU_set ::
  "time \<Rightarrow> 'k \<Rightarrow> 'v \<Rightarrow> ('k, 'v) LFUCache \<Rightarrow> (('k, 'v) lfuItem, ('k, 'v) LFUCache) result" where
  "LFU_set wall k v c =
     (let finish = (\<lambda>item0 c1.
            (let item = (case cexpiration c1 of
                           None \<Rightarrow> item0
                         | Some d \<Rightarrow> item0\<lparr>expiration := Some (Now (clock c1) wall + d)\<rparr>);
                 c2 = c1\<lparr>lfu_items := AList.update k item (lfu_items c1)\<rparr>
             in Ret item (call_addedFunc k v c2)))
      in case map_of (lfu_items c) k of
           Some it \<Rightarrow> finish (it\<lparr>val := v\<rparr>) c
         | None \<Rightarrow>
             (case (if int (length (lfu_items c)) \<ge> csize c then LFU_evict 1 c else Ret () c) of
                Panic p c1 \<Rightarrow> Panic p c1
              | Ret u c1 \<Rightarrow>
                  (case freqList c1 of
                     [] \<Rightarrow> Panic NilDereference c1
                   | (head, entry) # rest \<Rightarrow>
                       finish \<lparr>val = v, expiration = None, key = k, freqElement = head\<rparr>
                         (c1\<lparr>freqList := (head, entry\<lparr>members := List.insert k (members entry)\<rparr>) # rest\<rparr>))))"

definition LFU_expire_at :: "'k \<Rightarrow> time \<Rightarrow> ('k, 'v) LFUCache \<Rightarrow> ('k, 'v) LFUCache" where
  "LFU_expire_at k t c =
     (case map_of (lfu_items c) k of
        None \<Rightarrow> c
      | Some it \<Rightarrow> c\<lparr>lfu_items := AList.update k (it\<lparr>expiration := Some t\<rparr>) (lfu_items c)\<rparr>)"

definition LFU_Set :: "time \<Rightarrow> 'k \<Rightarrow> 'v \<Rightarrow> ('k, 'v) LFUCache \<Rightarrow> (error option, ('k, 'v) LFUCache) result" where
  "LFU_Set wall k v c =
     (case LFU_set wall k v c of
        Panic p c1 \<Rightarrow> Panic p c1
      | Ret item c1 \<Rightarrow> Ret None c1)"

definition LFU_SetWithExpire ::
  "time \<Rightarrow> 'k \<Rightarrow> 'v \<Rightarrow> duration \<Rightarrow> ('k, 'v) LFUCache \<Rightarrow> (error option, ('k, 'v) LFUCache) result" where
  "LFU_SetWithExpire wall k v d c =
     (case LFU_set wall k v c of
        Panic p c1 \<Rightarrow> Panic p c1
      | Ret item c1 \<Rightarrow> Ret None (LFU_expire_at k (Now (clock c1) wall + d) c1))"

definition LFU_getValue ::
  "time \<Rightarrow> 'k \<Rightarrow> bool \<Rightarrow> ('k, 'v) LFUCache \<Rightarrow> ('v option \<times> error option, ('k, 'v) LFUCache) result" where
  "LFU_getValue wall k onLoad c =
     (case map_of (lfu_items c) k of
        Some item \<Rightarrow>
          if \<not> IsExpired (Now (clock c) wall) None item then
            (case LFU_increment k c of
               Panic p c1 \<Rightarrow> Panic p c1
             | Ret u c1 \<Rightarrow> Ret (Some (val item), None) (count_hit onLoad c1))
          else
            (case LFU_removeItem k c of
               Panic p c1 \<Rightarrow> Panic p c1
             | Ret u c1 \<Rightarrow> Ret (None, Some KeyNotFoundError) (count_miss onLoad c1))
      | None \<Rightarrow> Ret (None, Some KeyNotFoundError) (count_miss onLoad c))"

definition LFU_get ::
  "time \<Rightarrow> 'k \<Rightarrow> bool \<Rightarrow> ('k, 'v) LFUCache \<Rightarrow> ('v option \<times> error option, ('k, 'v) LFUCache) result" where
  "LFU_get wall k onLoad c =
     (case LFU_getValue wall k onLoad c of
        Panic p c1 \<Rightarrow> Panic p c1
      | Ret (v, err) c1 \<Rightarrow> if err \<noteq> None then Ret (None, err) c1 else Ret (v, None) c1)"

definition LFU_cb ::
  "time \<Rightarrow> 'k \<Rightarrow> error + 'v \<times> duration option \<Rightarrow> ('k, 'v) LFUCache
     \<Rightarrow> ('v option \<times> error option, ('k, 'v) LFUCache) result" where
  "LFU_cb wall k r c =
     (case r of
        Inl e \<Rightarrow> Ret (None, Some e) c
      | Inr (v, exp) \<Rightarrow>
          (case LFU_set wall k v c of
             Panic p c1 \<Rightarrow> Panic p c1
           | Ret item c1 \<Rightarrow>
               Ret (Some v, None)
                 (case exp of None \<Rightarrow> c1 | Some d \<Rightarrow> LFU_expire_at k (Now (clock c1) wall + d) c1)))"

definition LFU_getWithLoader ::
  "time \<Rightarrow> 'k \<Rightarrow> bool \<Rightarrow> ('k, 'v) LFUCache \<Rightarrow> ('v option \<times> error option, ('k, 'v) LFUCache) outcome" where
  "LFU_getWithLoader wall k isWait c = getWithLoader (LFU_get wall) (LFU_cb wall k) k isWait c"

definition LFU_Get ::
  "time \<Rightarrow> 'k \<Rightarrow> ('k, 'v) LFUCache \<Rightarrow> ('v option \<times> error option, ('k, 'v) LFUCache) outcome" where
  "LFU_Get wall k c =
     (case LFU_get wall k False c of
        Panic p c1 \<Rightarrow> Panics p c1
      | Ret (v, err) c1 \<Rightarrow>
          if err = Some KeyNotFoundError then LFU_getWithLoader wall k True c1
          else Returns (v, err) c1)"

definition LFU_GetIfPresent ::
  "time \<Rightarrow> 'k \<Rightarrow> ('k, 'v) LFUCache \<Rightarrow> ('v option \<times> error option, ('k, 'v) LFUCache) outcome" where
  "LFU_GetIfPresent wall k c =
     (case LFU_get wall k False c of
        Panic p c1 \<Rightarrow> Panics p c1
      | Ret (v, err) c1 \<Rightarrow>
          if err = Some KeyNotFoundError then LFU_getWithLoader wall k False c1
          else Returns (v, err) c1)"

definition LFU_background :: "time \<Rightarrow> 'k \<Rightarrow> ('k, 'v) LFUCache \<Rightarrow> ('k, 'v) LFUCache" where
  "LFU_background wall k c = snd (Group_call k (load_fn (LFU_cb wall k) k) c)"

definition LFU_remove :: "'k \<Rightarrow> ('k, 'v) LFUCache \<Rightarrow> (bool, ('k, 'v) LFUCache) result" where
  "LFU_remove k c =
     (case map_of (lfu_items c) k of
        Some item \<Rightarrow>
          (case LFU_removeItem k c of
             Panic p c1 \<Rightarrow> Panic p c1
           | Ret u c1 \<Rightarrow> Ret True c1)
      | None \<Rightarrow> Ret False c)"

definition LFU_Remove :: "'k \<Rightarrow> ('k, 'v) LFUCache \<Rightarrow> (bool, ('k, 'v) LFUCache) result" where
  "LFU_Remove k c = LFU_remove k c"

definition LFU_GetALL ::
  "time \<Rightarrow> bool \<Rightarrow> ('k, 'v) LFUCache \<Rightarrow> (('k \<times> 'v) list, ('k, 'v) LFUCache) outcome" where
  "LFU_GetALL wall checkExpired = under_lock RLock RUnlock (\<lambda>c. getall_of (lfu_items c) checkExpired wall)"

definition LFU_Keys :: "time \<Rightarrow> bool \<Rightarrow> ('k, 'v) LFUCache \<Rightarrow> ('k list, ('k, 'v) LFUCache) outcome" where
  "LFU_Keys wall checkExpired = under_lock RLock RUnlock (\<lambda>c. keys_of (lfu_items c) checkExpired wall)"

definition LFU_Len :: "time \<Rightarrow> bool \<Rightarrow> ('k, 'v) LFUCache \<Rightarrow> (int, ('k, 'v) LFUCache) outcome" where
  "LFU_Len wall checkExpired = under_lock RLock RUnlock (\<lambda>c. len_of_items (lfu_items c) checkExpired wall)"

definition LFU_Has :: "time \<Rightarrow> 'k \<Rightarrow> ('k, 'v) LFUCache \<Rightarrow> (bool, ('k, 'v) LFUCache) outcome" where
  "LFU_Has wall k = under_lock Lock Unlock (\<lambda>c. has (lfu_items c) k wall)"


section \<open>Auxiliary notions for the statements\<close>

text \<open>What a call of \<open>getValue\<close> does to the statistics: nothing with \<open>onLoad\<close>, and otherwise
  one increment, of the hit counter on a hit and of the miss counter on a miss.\<close>

definition one_lookup :: "bool \<Rightarrow> bool \<Rightarrow> stats \<Rightarrow> stats \<Rightarrow> bool" where
  "one_lookup onLoad hit st st' \<longleftrightarrow>
     (if onLoad then st' = st else if hit then st' = IncrHitCount st else st' = IncrMissCount st)"

text \<open>A top-level lookup has been counted once: one counter is one higher and the other is
  unchanged.\<close>

definition counted_once :: "stats \<Rightarrow> stats \<Rightarrow> bool" where
  "counted_once st st' \<longleftrightarrow> st' = IncrHitCount st \<or> st' = IncrMissCount st"

fun panic_of :: "('a, 's) outcome \<Rightarrow> panic option" where
  "panic_of (Returns a s) = None"
| "panic_of (Panics p s) = Some p"
| "panic_of (Blocks s) = None"

fun value_of :: "('a, 's) outcome \<Rightarrow> 'a option" where
  "value_of (Returns a s) = Some a"
| "value_of (Panics p s) = None"
| "value_of (Blocks s) = None"

text \<open>The handling of the case "L1 full" of \<^verbatim>\<open>ARCCache.set\<close> in the words of the specification:
  if T1 is shorter than the capacity, drop the tail of B1 and call \<open>replace\<close>; otherwise drop the
  tail of T1 and delete its entry.\<close>

definition spec_L1_full :: "'k \<Rightarrow> ('k, 'v) ARCCache \<Rightarrow> (unit, ('k, 'v) ARCCache) result" where
  "spec_L1_full k c =
     (if Len (t1 c) < csize c then
        (case RemoveTail (b1 c) of
           None \<Rightarrow> Panic NilDereference c
         | Some (old, l) \<Rightarrow> replace k (c\<lparr>b1 := l\<rparr>))
      else
        (case RemoveTail (t1 c) of
           None \<Rightarrow> Panic NilDereference c
         | Some (pop, l) \<Rightarrow> Ret () (delete_item pop (c\<lparr>t1 := l\<rparr>))))"

text \<open>A lock that nobody holds.\<close>

definition unlocked :: rwmutex where
  "unlocked = \<lparr>readers = 0, writer = False\<rparr>"

text \<open>What every policy's \<open>get\<close> does: it returns a value without an error or the sentinel without
  a value, counting the lookup as \<open>one_lookup\<close> says, or it panics before anything is counted.\<close>

definition get_ok ::
  "bool \<Rightarrow> ('k, 'v, 'z) baseCache_scheme
     \<Rightarrow> ('v option \<times> error option, ('k, 'v, 'z) baseCache_scheme) result \<Rightarrow> bool" where
  "get_ok onLoad c res =
     (case res of
        Panic p c1 \<Rightarrow> stats c1 = stats c
      | Ret r c1 \<Rightarrow>
          ((\<exists>v. r = (Some v, None)) \<or> r = (None, Some KeyNotFoundError))
          \<and> one_lookup onLoad (snd r = None) (stats c) (stats c1))"


section \<open>Concrete caches\<close>

text \<open>An ARC cache of size 1 on a fake clock, with the evicted callback configured, and the same
  cache after \<^verbatim>\<open>Set(1, 10)\<close>.\<close>

definition arc_new1 :: "(nat, nat) ARCCache" where
  "arc_new1 = newARCCache (buildCache (FakeClock 0) 1 None True False None)"

definition arc_one :: "(nat, nat) ARCCache" where
  "arc_one = state_of (ARC_Set 0 1 10 arc_new1)"

text \<open>The cache \<open>arc_one\<close> after \<^verbatim>\<open>Remove(1)\<close>: the key 1 is a ghost in B1, no entry is held.\<close>

definition arc_removed :: "(nat, nat) ARCCache" where
  "arc_removed = state_of (ARC_Remove 1 arc_one)"

text \<open>Caches of size 2 on a fake clock that stands at 0, one of each policy, after
  \<^verbatim>\<open>SetWithExpire(1, 10, 5)\<close> called when \<^verbatim>\<open>time.Now()\<close> reads 1000: the entry expires at time 5 of
  the fake clock.\<close>

definition base_fake :: "(nat, nat) baseCache" where
  "base_fake = buildCache (FakeClock 0) 2 None True False None"

definition simple_ex :: "(nat, nat) SimpleCache" where
  "simple_ex = state_of (Simple_SetWithExpire 1000 1 10 5 (newSimpleCache base_fake))"

definition lru_ex :: "(nat, nat) LRUCache" where
  "lru_ex = state_of (LRU_SetWithExpire 1000 1 10 5 (newLRUCache base_fake))"

definition lfu_ex :: "(nat, nat) LFUCache" where
  "lfu_ex = state_of (LFU_SetWithExpire 1000 1 10 5 (newLFUCache base_fake))"

definition arc_ex :: "(nat, nat) ARCCache" where
  "arc_ex = state_of (ARC_SetWithExpire 1000 1 10 5 (newARCCache base_fake))"


lemma RemoveTail_Some: "RemoveTail l = Some (x, l') \<longleftrightarrow> l = l' @ [x]"
  by (cases l rule: rev_cases) (auto simp: RemoveTail_def)

lemma RemoveTail_None: "RemoveTail l = None \<longleftrightarrow> l = []"
  by (simp add: RemoveTail_def)

lemma RemoveTail_snoc: "RemoveTail (l @ [x]) = Some (x, l)"
  by (simp add: RemoveTail_def)

lemma Len_simps: "Len [] = 0" "Len (x # l) = Len l + 1" "Len (l @ m) = Len l + Len m"
  by (simp_all add: Len_def)

lemma Len_nonneg: "0 \<le> Len l"
  by (simp add: Len_def)

lemma Len_0: "Len l = 0 \<longleftrightarrow> l = []" "Len l > 0 \<longleftrightarrow> l \<noteq> []"
  by (simp_all add: Len_def)

lemma PushFront_new: "k \<notin> set l \<Longrightarrow> PushFront k l = k # l"
  by (simp add: PushFront_def)

lemma set_remove1_insert: "k \<in> set l \<Longrightarrow> insert k (set (remove1 k l)) = set l"
  by (induction l) auto

lemma Len_remove1: "k \<in> set l \<Longrightarrow> Len (remove1 k l) = Len l - 1"
  by (induction l) (auto simp: Len_def)

lemma set_PushFront: "set (PushFront k l) = insert k (set l)"
  by (auto simp: PushFront_def set_remove1_insert)

lemma distinct_PushFront: "distinct l \<Longrightarrow> distinct (PushFront k l)"
  by (auto simp: PushFront_def)

lemma Len_PushFront: "Len (PushFront k l) = (if k \<in> set l then Len l else Len l + 1)"
  by (simp add: PushFront_def Len_remove1 Len_simps)

lemma set_Remove: "distinct l \<Longrightarrow> set (Remove k l) = set l - {k}"
  by (simp add: Remove_def)

lemma distinct_Remove: "distinct l \<Longrightarrow> distinct (Remove k l)"
  by (simp add: Remove_def)

lemma Len_Remove: "Len (Remove k l) = (if k \<in> set l then Len l - 1 else Len l)"
  by (simp add: Remove_def Len_remove1 remove1_idem)

lemma delete_item_fields:
  "t1 (delete_item old c) = t1 c" "t2 (delete_item old c) = t2 c"
  "b1 (delete_item old c) = b1 c" "b2 (delete_item old c) = b2 c"
  "csize (delete_item old c) = csize c" "part (delete_item old c) = part c"
  "stats (delete_item old c) = stats c" "group (delete_item old c) = group c"
  "arc_items (delete_item old c) = AList.delete old (arc_items c)"
  by (auto simp: delete_item_def call_evictedFunc_def split: option.splits
      dest: map_of_eq_None_iff[THEN iffD1])

lemma keys_delete: "fst ` set (AList.delete k al) = fst ` set al - {k}"
  by (induction al) auto

lemma replace_cases:
  assumes "0 < csize c" and "arc_disjoint c"
  obtains (idle) "\<not> isCacheFull c" "replace k c = Ret () c"
  | (from_t1) old l where "isCacheFull c" "t1 c = l @ [old]"
      "replace k c = Ret () (delete_item old (c\<lparr>t1 := l, b1 := old # b1 c\<rparr>))"
  | (from_t2) old l where "isCacheFull c" "t2 c = l @ [old]"
      "replace k c = Ret () (delete_item old (c\<lparr>t2 := l, b2 := old # b2 c\<rparr>))"
proof (cases "isCacheFull c")
  case False
  then show ?thesis using idle by (simp add: replace_def)
next
  case True
  show ?thesis
  proof (cases "replace_victim k c = FromT2")
    case v: True
    then have "t2 c \<noteq> []"
      by (auto simp: replace_victim_def Len_def split: if_splits)
    then obtain l old where l: "t2 c = l @ [old]"
      by (cases "t2 c" rule: rev_cases) auto
    then have "old \<notin> set (b2 c)" using assms(2) by (auto simp: arc_disjoint_def)
    then show ?thesis using from_t2[OF True l] True v l
      by (simp add: replace_def RemoveTail_snoc PushFront_new)
  next
    case v: False
    then have "t1 c \<noteq> []" using True assms(1)
      by (auto simp: replace_victim_def isCacheFull_def Len_def split: if_splits)
    then obtain l old where l: "t1 c = l @ [old]"
      by (cases "t1 c" rule: rev_cases) auto
    then have "old \<notin> set (b1 c)" using assms(2) by (auto simp: arc_disjoint_def)
    then show ?thesis using from_t1[OF True l] True v l
      by (cases "replace_victim k c") (simp_all add: replace_def RemoveTail_snoc PushFront_new)
  qed
qed

lemmas arc_defs = arc_distinct_def arc_disjoint_def arc_resident_bound_def arc_total_bound_def

lemma replace_keeps:
  assumes "0 < csize c" "arc_distinct c" "arc_disjoint c" "arc_resident_bound c"
    and "k \<notin> set (t1 c)" "k \<notin> set (t2 c)"
    and "fst ` set (arc_items c) = insert k (set (t1 c) \<union> set (t2 c))"
  obtains c1 where "replace k c = Ret () c1"
    and "csize c1 = csize c" "stats c1 = stats c" "group c1 = group c" "part c1 = part c"
    and "arc_distinct c1" "arc_disjoint c1"
    and "Len (t1 c1) + Len (t2 c1) < csize c"
    and "Len (t1 c1) + Len (t2 c1) + Len (b1 c1) + Len (b2 c1) = Len (t1 c) + Len (t2 c) + Len (b1 c) + Len (b2 c)"
    and "Len (t1 c1) + Len (b1 c1) = Len (t1 c) + Len (b1 c)"
    and "k \<notin> set (t1 c1)" "k \<notin> set (t2 c1)"
    and "k \<in> set (b1 c1) \<longleftrightarrow> k \<in> set (b1 c)" "k \<in> set (b2 c1) \<longleftrightarrow> k \<in> set (b2 c)"
    and "fst ` set (arc_items c1) = insert k (set (t1 c1) \<union> set (t2 c1))"
    and "map_of (arc_items c1) k = map_of (arc_items c) k"
proof (rule replace_cases[OF assms(1) assms(3), of k])
  assume a: "\<not> isCacheFull c" "replace k c = Ret () c"
  show ?thesis
    by (rule that[of c]) (use assms a in \<open>auto simp: isCacheFull_def arc_defs\<close>)
next
  fix old l
  assume a: "isCacheFull c" "t1 c = l @ [old]"
    "replace k c = Ret () (delete_item old (c\<lparr>t1 := l, b1 := old # b1 c\<rparr>))"
  show ?thesis
    by (rule that[of "delete_item old (c\<lparr>t1 := l, b1 := old # b1 c\<rparr>)"])
      (use assms a in \<open>auto simp: isCacheFull_def arc_defs delete_item_fields keys_delete Len_simps distinct_delete\<close>)
next
  fix old l
  assume a: "isCacheFull c" "t2 c = l @ [old]"
    "replace k c = Ret () (delete_item old (c\<lparr>t2 := l, b2 := old # b2 c\<rparr>))"
  show ?thesis
    by (rule that[of "delete_item old (c\<lparr>t2 := l, b2 := old # b2 c\<rparr>)"])
      (use assms a in \<open>auto simp: isCacheFull_def arc_defs delete_item_fields keys_delete Len_simps distinct_delete\<close>)
qed

lemma ARC_set_room_keeps:
  assumes "0 < csize c" "arc_distinct c" "arc_disjoint c" "arc_resident_bound c" "arc_total_bound c"
    and "k \<notin> set (t1 c)" "k \<notin> set (t2 c)" "k \<notin> set (b1 c)" "k \<notin> set (b2 c)"
    and "fst ` set (arc_items c) = insert k (set (t1 c) \<union> set (t2 c))"
  obtains c1 where "ARC_set_room k c = Ret () c1"
    and "csize c1 = csize c" "stats c1 = stats c" "group c1 = group c" "part c1 = part c"
    and "arc_distinct c1" "arc_disjoint c1"
    and "Len (t1 c1) + Len (t2 c1) < csize c"
    and "Len (t1 c1) + Len (t2 c1) + Len (b1 c1) + Len (b2 c1) < 2 * csize c"
    and "Len (t1 c1) + Len (b1 c1) \<le> Len (t1 c) + Len (b1 c)"
    and "isCacheFull c \<and> Len (t1 c) + Len (b1 c) = csize c \<longrightarrow> Len (t1 c1) + Len (b1 c1) < csize c"
    and "k \<notin> set (t1 c1)" "k \<notin> set (t2 c1)" "k \<notin> set (b1 c1)" "k \<notin> set (b2 c1)"
    and "fst ` set (arc_items c1) = insert k (set (t1 c1) \<union> set (t2 c1))"
    and "map_of (arc_items c1) k = map_of (arc_items c) k"
proof -
  let ?total = "Len (t1 c) + Len (t2 c) + Len (b1 c) + Len (b2 c)"
  have nn: "0 \<le> Len (t1 c)" "0 \<le> Len (t2 c)" "0 \<le> Len (b1 c)" "0 \<le> Len (b2 c)"
    by (simp_all add: Len_nonneg)
  have bounds: "Len (t1 c) + Len (t2 c) \<le> csize c" "?total \<le> 2 * csize c"
    using assms(4,5) by (simp_all add: arc_defs)
  consider (l1_b1) "isCacheFull c" "Len (t1 c) + Len (b1 c) = csize c" "Len (t1 c) < csize c"
    | (l1_t1) "isCacheFull c" "Len (t1 c) + Len (b1 c) = csize c" "\<not> Len (t1 c) < csize c"
    | (full_b2) "\<not> (isCacheFull c \<and> Len (t1 c) + Len (b1 c) = csize c)" "?total = 2 * csize c" "Len (b2 c) > 0"
    | (full_b1) "\<not> (isCacheFull c \<and> Len (t1 c) + Len (b1 c) = csize c)" "?total = 2 * csize c" "\<not> Len (b2 c) > 0"
    | (some) "\<not> (isCacheFull c \<and> Len (t1 c) + Len (b1 c) = csize c)" "?total \<ge> csize c" "?total \<noteq> 2 * csize c"
    | (few) "\<not> (isCacheFull c \<and> Len (t1 c) + Len (b1 c) = csize c)" "\<not> ?total \<ge> csize c"
    by blast
  then show ?thesis
  proof cases
    case l1_b1
    then have "b1 c \<noteq> []" by (auto simp: Len_def)
    then obtain l old where l: "b1 c = l @ [old]" by (cases "b1 c" rule: rev_cases) auto
    let ?c = "c\<lparr>b1 := l\<rparr>"
    have pre: "0 < csize ?c" "arc_distinct ?c" "arc_disjoint ?c" "arc_resident_bound ?c"
      "k \<notin> set (t1 ?c)" "k \<notin> set (t2 ?c)"
      "fst ` set (arc_items ?c) = insert k (set (t1 ?c) \<union> set (t2 ?c))"
      using assms l by (auto simp: arc_defs)
    have run: "ARC_set_room k c = replace k ?c"
      using l1_b1 l by (auto simp: ARC_set_room_def RemoveTail_snoc Let_def)
    have len: "Len (b1 c) = Len l + 1" "k \<notin> set l"
      using l assms(8) by (simp_all add: Len_simps)
    from replace_keeps[OF pre] obtain c1 where r: "replace k ?c = Ret () c1"
      "csize c1 = csize ?c" "stats c1 = stats ?c" "group c1 = group ?c" "part c1 = part ?c"
      "arc_distinct c1" "arc_disjoint c1"
      "Len (t1 c1) + Len (t2 c1) < csize ?c"
      "Len (t1 c1) + Len (t2 c1) + Len (b1 c1) + Len (b2 c1) = Len (t1 ?c) + Len (t2 ?c) + Len (b1 ?c) + Len (b2 ?c)"
      "Len (t1 c1) + Len (b1 c1) = Len (t1 ?c) + Len (b1 ?c)"
      "k \<notin> set (t1 c1)" "k \<notin> set (t2 c1)"
      "k \<in> set (b1 c1) \<longleftrightarrow> k \<in> set (b1 ?c)" "k \<in> set (b2 c1) \<longleftrightarrow> k \<in> set (b2 ?c)"
      "fst ` set (arc_items c1) = insert k (set (t1 c1) \<union> set (t2 c1))"
      "map_of (arc_items c1) k = map_of (arc_items ?c) k"
      by blast
    show ?thesis
      by (rule that[of c1]) (use r run len bounds l1_b1 assms(9) in \<open>simp_all\<close>)
  next
    case l1_t1
    then have "t1 c \<noteq> []" using assms(1) nn by (auto simp: Len_def isCacheFull_def)
    then obtain l pop where l: "t1 c = l @ [pop]" by (cases "t1 c" rule: rev_cases) auto
    have run: "ARC_set_room k c = Ret () (delete_item pop (c\<lparr>t1 := l\<rparr>))"
      using l1_t1 l by (auto simp: ARC_set_room_def RemoveTail_snoc Let_def)
    show ?thesis
      by (rule that[of "delete_item pop (c\<lparr>t1 := l\<rparr>)"])
        (use run l1_t1 l assms nn in \<open>auto simp: Len_simps arc_defs isCacheFull_def
          delete_item_fields keys_delete distinct_delete\<close>)
  next
    case full_b2
    then have "b2 c \<noteq> []" by (auto simp: Len_def)
    then obtain l old where l: "b2 c = l @ [old]" by (cases "b2 c" rule: rev_cases) auto
    let ?c = "c\<lparr>b2 := l\<rparr>"
    have pre: "0 < csize ?c" "arc_distinct ?c" "arc_disjoint ?c" "arc_resident_bound ?c"
      "k \<notin> set (t1 ?c)" "k \<notin> set (t2 ?c)"
      "fst ` set (arc_items ?c) = insert k (set (t1 ?c) \<union> set (t2 ?c))"
      using assms l by (auto simp: arc_defs)
    have run: "ARC_set_room k c = replace k ?c"
      using full_b2 l assms(1) by (auto simp: ARC_set_room_def RemoveTail_snoc Let_def)
    have len: "Len (b2 c) = Len l + 1" "k \<notin> set l"
      using l assms(9) by (simp_all add: Len_simps)
    from replace_keeps[OF pre] obtain c1 where r: "replace k ?c = Ret () c1"
      "csize c1 = csize ?c" "stats c1 = stats ?c" "group c1 = group ?c" "part c1 = part ?c"
      "arc_distinct c1" "arc_disjoint c1"
      "Len (t1 c1) + Len (t2 c1) < csize ?c"
      "Len (t1 c1) + Len (t2 c1) + Len (b1 c1) + Len (b2 c1) = Len (t1 ?c) + Len (t2 ?c) + Len (b1 ?c) + Len (b2 ?c)"
      "Len (t1 c1) + Len (b1 c1) = Len (t1 ?c) + Len (b1 ?c)"
      "k \<notin> set (t1 c1)" "k \<notin> set (t2 c1)"
      "k \<in> set (b1 c1) \<longleftrightarrow> k \<in> set (b1 ?c)" "k \<in> set (b2 c1) \<longleftrightarrow> k \<in> set (b2 ?c)"
      "fst ` set (arc_items c1) = insert k (set (t1 c1) \<union> set (t2 c1))"
      "map_of (arc_items c1) k = map_of (arc_items ?c) k"
      by blast
    show ?thesis
      by (rule that[of c1]) (use r run len bounds full_b2 assms(8) in \<open>simp_all\<close>)
  next
    case full_b1
    then have "b1 c \<noteq> []" using assms(1) bounds nn by (auto simp: Len_def)
    then obtain l old where l: "b1 c = l @ [old]" by (cases "b1 c" rule: rev_cases) auto
    let ?c = "c\<lparr>b1 := l\<rparr>"
    have pre: "0 < csize ?c" "arc_distinct ?c" "arc_disjoint ?c" "arc_resident_bound ?c"
      "k \<notin> set (t1 ?c)" "k \<notin> set (t2 ?c)"
      "fst ` set (arc_items ?c) = insert k (set (t1 ?c) \<union> set (t2 ?c))"
      using assms l by (auto simp: arc_defs)
    have run: "ARC_set_room k c = replace k ?c"
      using full_b1 l assms(1) by (auto simp: ARC_set_room_def RemoveTail_snoc Let_def)
    have len: "Len (b1 c) = Len l + 1" "k \<notin> set l"
      using l assms(8) by (simp_all add: Len_simps)
    from replace_keeps[OF pre] obtain c1 where r: "replace k ?c = Ret () c1"
      "csize c1 = csize ?c" "stats c1 = stats ?c" "group c1 = group ?c" "part c1 = part ?c"
      "arc_distinct c1" "arc_disjoint c1"
      "Len (t1 c1) + Len (t2 c1) < csize ?c"
      "Len (t1 c1) + Len (t2 c1) + Len (b1 c1) + Len (b2 c1) = Len (t1 ?c) + Len (t2 ?c) + Len (b1 ?c) + Len (b2 ?c)"
      "Len (t1 c1) + Len (b1 c1) = Len (t1 ?c) + Len (b1 ?c)"
      "k \<notin> set (t1 c1)" "k \<notin> set (t2 c1)"
      "k \<in> set (b1 c1) \<longleftrightarrow> k \<in> set (b1 ?c)" "k \<in> set (b2 c1) \<longleftrightarrow> k \<in> set (b2 ?c)"
      "fst ` set (arc_items c1) = insert k (set (t1 c1) \<union> set (t2 c1))"
      "map_of (arc_items c1) k = map_of (arc_items ?c) k"
      by blast
    show ?thesis
      by (rule that[of c1]) (use r run len bounds full_b1 assms(9) in \<open>simp_all\<close>)
  next
    case some
    have run: "ARC_set_room k c = replace k c"
      using some by (auto simp: ARC_set_room_def Let_def)
    from replace_keeps[OF assms(1-4) assms(6,7) assms(10)] obtain c1 where r: "replace k c = Ret () c1"
      "csize c1 = csize c" "stats c1 = stats c" "group c1 = group c" "part c1 = part c"
      "arc_distinct c1" "arc_disjoint c1"
      "Len (t1 c1) + Len (t2 c1) < csize c"
      "Len (t1 c1) + Len (t2 c1) + Len (b1 c1) + Len (b2 c1) = Len (t1 c) + Len (t2 c) + Len (b1 c) + Len (b2 c)"
      "Len (t1 c1) + Len (b1 c1) = Len (t1 c) + Len (b1 c)"
      "k \<notin> set (t1 c1)" "k \<notin> set (t2 c1)"
      "k \<in> set (b1 c1) \<longleftrightarrow> k \<in> set (b1 c)" "k \<in> set (b2 c1) \<longleftrightarrow> k \<in> set (b2 c)"
      "fst ` set (arc_items c1) = insert k (set (t1 c1) \<union> set (t2 c1))"
      "map_of (arc_items c1) k = map_of (arc_items c) k"
      by blast
    show ?thesis
      by (rule that[of c1]) (use r run bounds some assms(8,9) in \<open>simp_all\<close>)
  next
    case few
    have run: "ARC_set_room k c = Ret () c"
      using few by (auto simp: ARC_set_room_def Let_def)
    show ?thesis
      by (rule that[of c]) (use run few assms nn bounds in \<open>simp_all\<close>)
  qed
qed



lemma setPart_fields:
  "t1 (setPart p c) = t1 c" "t2 (setPart p c) = t2 c" "b1 (setPart p c) = b1 c" "b2 (setPart p c) = b2 c"
  "csize (setPart p c) = csize c" "stats (setPart p c) = stats c" "group (setPart p c) = group c"
  "arc_items (setPart p c) = arc_items c"
  by (simp_all add: setPart_def)

lemma call_addedFunc_fields:
  "t1 (call_addedFunc k v c) = t1 c" "t2 (call_addedFunc k v c) = t2 c"
  "b1 (call_addedFunc k v c) = b1 c" "b2 (call_addedFunc k v c) = b2 c"
  "csize (call_addedFunc k v c) = csize c" "stats (call_addedFunc k v c) = stats c"
  "group (call_addedFunc k v c) = group c" "part (call_addedFunc k v c) = part c"
  "arc_items (call_addedFunc k v c) = arc_items c"
  by (simp_all add: call_addedFunc_def)

lemma ARC_set_keeps:
  assumes inv: "arc_inv c0" and new: "k \<notin> set (t1 c0)" "k \<notin> set (t2 c0)"
  obtains item c1 where "ARC_set wall k v c0 = Ret item c1" "arc_inv c1"
    and "csize c1 = csize c0" "stats c1 = stats c0" "group c1 = group c0"
    and "map_of (arc_items c1) k = Some item" "val item = v"
    and "k \<in> set (t1 c1) \<union> set (t2 c1)"
    and "arc_l1_bound c0 \<and> (isCacheFull c0 \<or> Len (t1 c0) + Len (b1 c0) < csize c0) \<longrightarrow> arc_l1_bound c1"
proof -
  obtain item c where up: "ARC_upsert wall k v c0 = (item, c)"
    by (cases "ARC_upsert wall k v c0")
  have same: "t1 c = t1 c0" "t2 c = t2 c0" "b1 c = b1 c0" "b2 c = b2 c0" "csize c = csize c0"
    "stats c = stats c0" "group c = group c0"
    and items: "arc_items c = AList.update k item (arc_items c0)" and v: "val item = v"
    using up by (auto simp: ARC_upsert_def Let_def split: option.splits)
  have look: "map_of (arc_items c) k = Some item"
    by (simp add: items update_conv')
  have pre: "0 < csize c" "arc_distinct c" "arc_disjoint c" "arc_resident_bound c" "arc_total_bound c"
    "k \<notin> set (t1 c)" "k \<notin> set (t2 c)"
    "fst ` set (arc_items c) = insert k (set (t1 c) \<union> set (t2 c))"
    using inv new by (auto simp: arc_inv_def arc_defs arc_map_keys_def same items dom_update distinct_update)
  have full: "isCacheFull c = isCacheFull c0"
    by (simp add: isCacheFull_def same)
  have nohit: "\<not> (Has k (t1 c) \<and> Has k (t2 c))"
    using pre by (simp add: Has_def)
  consider (ghost1) "k \<in> set (b1 c)" | (ghost2) "k \<notin> set (b1 c)" "k \<in> set (b2 c)"
    | (fresh) "k \<notin> set (b1 c)" "k \<notin> set (b2 c)"
    by blast
  then show ?thesis
  proof cases
    case ghost1
    define p where "p = min (csize c) (part c + max (Len (b2 c) div Len (b1 c)) 1)"
    let ?c = "setPart p c"
    have pre': "0 < csize ?c" "arc_distinct ?c" "arc_disjoint ?c" "arc_resident_bound ?c"
      "k \<notin> set (t1 ?c)" "k \<notin> set (t2 ?c)"
      "fst ` set (arc_items ?c) = insert k (set (t1 ?c) \<union> set (t2 ?c))"
      using pre by (simp_all add: arc_defs setPart_fields)
    show ?thesis
    proof (rule replace_keeps[OF pre'], goal_cases)
      case r: (1 c1)
    let ?c2 = "c1\<lparr>b1 := Remove k (b1 c1), t2 := PushFront k (t2 c1)\<rparr>"
    have run: "ARC_set wall k v c0 = Ret item ?c2"
      using up pre(6,7) ghost1 r(1) by (simp add: ARC_set_def Has_def p_def)
    have kb: "k \<in> set (b1 c1)" "k \<notin> set (b2 c1)"
      using r(13,14) ghost1 pre(3) by (auto simp: setPart_fields arc_defs)
    have d: "distinct (t1 c1)" "distinct (t2 c1)" "distinct (b1 c1)" "distinct (b2 c1)"
      "distinct (map fst (arc_items c1))"
      using r(6) by (simp_all add: arc_distinct_def)
    have j: "set (t1 c1) \<inter> set (t2 c1) = {}" "set (t1 c1) \<inter> set (b1 c1) = {}"
      "set (t1 c1) \<inter> set (b2 c1) = {}" "set (t2 c1) \<inter> set (b1 c1) = {}"
      "set (t2 c1) \<inter> set (b2 c1) = {}" "set (b1 c1) \<inter> set (b2 c1) = {}"
      using r(7) by (simp_all add: arc_disjoint_def)
    have n: "Len (t1 c1) + Len (t2 c1) < csize c0"
      "Len (t1 c1) + Len (t2 c1) + Len (b1 c1) + Len (b2 c1) \<le> 2 * csize c0"
      "Len (t1 c1) + Len (b1 c1) = Len (t1 c0) + Len (b1 c0)" "csize c1 = csize c0"
      using r(2,8,9,10) pre(5) by (simp_all add: setPart_fields same arc_total_bound_def)
    have t2': "PushFront k (t2 c1) = k # t2 c1"
      using r(12) by (simp add: PushFront_new)
    have i1: "arc_distinct ?c2"
      using d r(12) kb by (simp add: arc_distinct_def t2' distinct_Remove)
    have i2: "arc_disjoint ?c2"
      using d j r(11,12) kb by (auto simp: arc_disjoint_def t2' set_Remove)
    have i3: "arc_resident_bound ?c2" "arc_total_bound ?c2"
      using n kb by (simp_all add: arc_resident_bound_def arc_total_bound_def t2' Len_simps Len_Remove)
    have i4: "arc_map_keys ?c2"
      using r(15) by (auto simp: arc_map_keys_def t2')
    have i: "arc_inv ?c2"
      using i1 i2 i3 i4 n pre(1) by (simp add: arc_inv_def same)
    have l: "arc_l1_bound c0 \<longrightarrow> arc_l1_bound ?c2"
      using n kb by (simp add: arc_l1_bound_def Len_Remove)
    show ?case
      by (rule that[of item ?c2]) (use run i l r(2,3,4,16) look v in \<open>simp_all add: setPart_fields same set_PushFront\<close>)
    qed
  next
    case ghost2
    define p where "p = max 0 (part c - max (Len (b1 c) div Len (b2 c)) 1)"
    let ?c = "setPart p c"
    have pre': "0 < csize ?c" "arc_distinct ?c" "arc_disjoint ?c" "arc_resident_bound ?c"
      "k \<notin> set (t1 ?c)" "k \<notin> set (t2 ?c)"
      "fst ` set (arc_items ?c) = insert k (set (t1 ?c) \<union> set (t2 ?c))"
      using pre by (simp_all add: arc_defs setPart_fields)
    show ?thesis
    proof (rule replace_keeps[OF pre'], goal_cases)
      case r: (1 c1)
    let ?c2 = "c1\<lparr>b2 := Remove k (b2 c1), t2 := PushFront k (t2 c1)\<rparr>"
    have run: "ARC_set wall k v c0 = Ret item ?c2"
      using up pre(6,7) ghost2 r(1) by (simp add: ARC_set_def Has_def p_def)
    have kb: "k \<notin> set (b1 c1)" "k \<in> set (b2 c1)"
      using r(13,14) ghost2 by (auto simp: setPart_fields)
    have d: "distinct (t1 c1)" "distinct (t2 c1)" "distinct (b1 c1)" "distinct (b2 c1)"
      "distinct (map fst (arc_items c1))"
      using r(6) by (simp_all add: arc_distinct_def)
    have j: "set (t1 c1) \<inter> set (t2 c1) = {}" "set (t1 c1) \<inter> set (b1 c1) = {}"
      "set (t1 c1) \<inter> set (b2 c1) = {}" "set (t2 c1) \<inter> set (b1 c1) = {}"
      "set (t2 c1) \<inter> set (b2 c1) = {}" "set (b1 c1) \<inter> set (b2 c1) = {}"
      using r(7) by (simp_all add: arc_disjoint_def)
    have n: "Len (t1 c1) + Len (t2 c1) < csize c0"
      "Len (t1 c1) + Len (t2 c1) + Len (b1 c1) + Len (b2 c1) \<le> 2 * csize c0"
      "Len (t1 c1) + Len (b1 c1) = Len (t1 c0) + Len (b1 c0)" "csize c1 = csize c0"
      using r(2,8,9,10) pre(5) by (simp_all add: setPart_fields same arc_total_bound_def)
    have t2': "PushFront k (t2 c1) = k # t2 c1"
      using r(12) by (simp add: PushFront_new)
    have i1: "arc_distinct ?c2"
      using d r(12) kb by (simp add: arc_distinct_def t2' distinct_Remove)
    have i2: "arc_disjoint ?c2"
      using d j r(11,12) kb by (auto simp: arc_disjoint_def t2' set_Remove)
    have i3: "arc_resident_bound ?c2" "arc_total_bound ?c2"
      using n kb by (simp_all add: arc_resident_bound_def arc_total_bound_def t2' Len_simps Len_Remove)
    have i4: "arc_map_keys ?c2"
      using r(15) by (auto simp: arc_map_keys_def t2')
    have i: "arc_inv ?c2"
      using i1 i2 i3 i4 n pre(1) by (simp add: arc_inv_def same)
    have l: "arc_l1_bound c0 \<longrightarrow> arc_l1_bound ?c2"
      using n kb by (simp add: arc_l1_bound_def)
    show ?case
      by (rule that[of item ?c2]) (use run i l r(2,3,4,16) look v in \<open>simp_all add: setPart_fields same set_PushFront\<close>)
    qed
  next
    case fresh
    show ?thesis
    proof (rule ARC_set_room_keeps[OF pre(1-7) fresh pre(8)], goal_cases)
      case r: (1 c1)
    let ?c2 = "(call_addedFunc k v c1)\<lparr>t1 := PushFront k (t1 (call_addedFunc k v c1))\<rparr>"
    have run: "ARC_set wall k v c0 = Ret item ?c2"
      using up pre(6,7) fresh r(1) by (simp add: ARC_set_def Has_def Let_def)
    have d: "distinct (t1 c1)" "distinct (t2 c1)" "distinct (b1 c1)" "distinct (b2 c1)"
      "distinct (map fst (arc_items c1))"
      using r(6) by (simp_all add: arc_distinct_def)
    have j: "set (t1 c1) \<inter> set (t2 c1) = {}" "set (t1 c1) \<inter> set (b1 c1) = {}"
      "set (t1 c1) \<inter> set (b2 c1) = {}" "set (t2 c1) \<inter> set (b1 c1) = {}"
      "set (t2 c1) \<inter> set (b2 c1) = {}" "set (b1 c1) \<inter> set (b2 c1) = {}"
      using r(7) by (simp_all add: arc_disjoint_def)
    have n: "Len (t1 c1) + Len (t2 c1) < csize c0"
      "Len (t1 c1) + Len (t2 c1) + Len (b1 c1) + Len (b2 c1) < 2 * csize c0"
      "Len (t1 c1) + Len (b1 c1) \<le> Len (t1 c0) + Len (b1 c0)" "csize c1 = csize c0"
      "isCacheFull c0 \<and> Len (t1 c0) + Len (b1 c0) = csize c0 \<longrightarrow> Len (t1 c1) + Len (b1 c1) < csize c0"
      using r(2,8,9,10,11) full by (simp_all add: same)
    have t1': "PushFront k (t1 c1) = k # t1 c1"
      using r(12) by (simp add: PushFront_new)
    have i1: "arc_distinct ?c2"
      using d r(12) by (simp add: arc_distinct_def t1' call_addedFunc_fields)
    have i2: "arc_disjoint ?c2"
      using d j r(12,13,14,15) by (auto simp: arc_disjoint_def t1' call_addedFunc_fields)
    have i3: "arc_resident_bound ?c2" "arc_total_bound ?c2"
      using n by (simp_all add: arc_resident_bound_def arc_total_bound_def t1' Len_simps call_addedFunc_fields)
    have i4: "arc_map_keys ?c2"
      using r(16) by (auto simp: arc_map_keys_def t1' call_addedFunc_fields)
    have i: "arc_inv ?c2"
      using i1 i2 i3 i4 n pre(1) by (simp add: arc_inv_def same call_addedFunc_fields)
    have l: "arc_l1_bound c0 \<and> (isCacheFull c0 \<or> Len (t1 c0) + Len (b1 c0) < csize c0) \<longrightarrow> arc_l1_bound ?c2"
      using n by (auto simp: arc_l1_bound_def call_addedFunc_fields t1' Len_simps)
    show ?case
      by (rule that[of item ?c2]) (use run i l r(2,3,4,17) look v in \<open>simp_all add: call_addedFunc_fields same set_PushFront\<close>)
    qed
  qed
qed


lemmas arc_eval = ARC_Set_def ARC_set_def ARC_upsert_def ARC_set_room_def replace_def replace_victim_def
  isCacheFull_def setPart_def delete_item_def RemoveTail_def PushFront_def Remove_def Has_def Len_def
  call_addedFunc_def call_evictedFunc_def newARCCache_def buildCache_def Let_def ARC_remove_def ARC_Remove_def
  MoveToFront_def

lemma arc_one_eq:
  "arc_one = \<lparr>clock = FakeClock 0, csize = 1, loaderExpireFunc = None, evictedFunc = True,
     addedFunc = False, cexpiration = None, mu = \<lparr>readers = 0, writer = False\<rparr>, group = Map.empty,
     stats = \<lparr>hitCount = 0, missCount = 0\<rparr>, calls = [],
     arc_items = [(1, \<lparr>val = 10, expiration = None, key = 1\<rparr>)], part = 0,
     t1 = [1], t2 = [], b1 = [], b2 = []\<rparr>"
  by (simp add: arc_one_def arc_new1_def arc_eval)

lemma arc_removed_eq:
  "arc_removed = \<lparr>clock = FakeClock 0, csize = 1, loaderExpireFunc = None, evictedFunc = True,
     addedFunc = False, cexpiration = None, mu = \<lparr>readers = 0, writer = False\<rparr>, group = Map.empty,
     stats = \<lparr>hitCount = 0, missCount = 0\<rparr>, calls = [Evicted 1 10],
     arc_items = [], part = 0, t1 = [], t2 = [], b1 = [1], b2 = []\<rparr>"
  by (simp add: arc_removed_def arc_one_eq arc_eval)


lemma load_fn_keeps:
  assumes "\<And>r. P (state_of (cb r s))"
    and "P s"
  shows "P (snd (load_fn cb k s))"
proof -
  have 1: "P s1" if "cb r s = Ret x s1" for r x s1
    using assms(1)[of r] that by simp
  have 2: "P s1" if "cb r s = Panic p s1" for r p s1
    using assms(1)[of r] that by simp
  show ?thesis
    using assms(2) 1 2
    by (auto simp: load_fn_def split: option.splits loaded.splits result.splits)
qed

lemma Group_call_keeps:
  assumes "\<And>s g. P (s\<lparr>group := g\<rparr>) = P s"
    and "P (snd (fn s))"
  shows "P (snd (Group_call k fn s))"
  using assms by (auto simp: Group_call_def split: prod.splits)

lemma Do_keeps:
  assumes grp: "\<And>s g. P (s\<lparr>group := g\<rparr>) = P s" "\<And>s g. Q (s\<lparr>group := g\<rparr>) = Q s"
    and get: "P (state_of (get k True c))"
      "\<And>v e. returned (get k True c) = Some (v, Some e) \<Longrightarrow> Q (state_of (get k True c))"
    and fn: "\<And>s. P s \<Longrightarrow> Q s \<Longrightarrow> P (snd (fn s))"
  shows "P (final (Do get k fn isWait c))"
proof (cases "get k True c")
  case (Panic p s1)
  then show ?thesis using get by (simp add: Do_def)
next
  case (Ret r s1)
  obtain v err where r: "r = (v, err)" by (cases r)
  have P1: "P s1" using get(1) Ret by simp
  show ?thesis
  proof (cases err)
    case None
    then show ?thesis using Ret r P1 by (simp add: Do_def)
  next
    case (Some e)
    then have Q1: "Q s1" using get(2)[of v e] Ret r by simp
    let ?s2 = "s1\<lparr>group := (group s1)(k \<mapsto> \<lparr>wg = 1, cval = None, cerr = None\<rparr>)\<rparr>"
    have s2: "P ?s2" "Q ?s2" using P1 Q1 grp by simp_all
    then have "P (snd (fn ?s2))" by (rule fn)
    then have "P (snd (Group_call k fn ?s2))"
      by (rule Group_call_keeps[where P = P, OF grp(1)])
    then show ?thesis using Ret r Some P1 s2(1)
      by (auto simp: Do_def Let_def split: option.splits prod.splits)
  qed
qed

lemma final_load: "final (load get cb k isWait c) = final (Do get k (load_fn cb k) isWait c)"
  by (auto simp: load_def split: outcome.splits prod.splits)

lemma final_getWithLoader:
  "final (getWithLoader get cb k isWait c) =
     (if loaderExpireFunc c = None then c else final (Do get k (load_fn cb k) isWait c))"
  by (auto simp: getWithLoader_def load_def split: outcome.splits prod.splits)

lemma getWithLoader_keeps:
  assumes grp: "\<And>s g. P (s\<lparr>group := g\<rparr>) = P s" "\<And>s g. Q (s\<lparr>group := g\<rparr>) = Q s"
    and get: "P (state_of (get k True c))"
      "\<And>v e. returned (get k True c) = Some (v, Some e) \<Longrightarrow> Q (state_of (get k True c))"
    and cb: "\<And>s r. P s \<Longrightarrow> Q s \<Longrightarrow> P (state_of (cb r s))"
    and "P c"
  shows "P (final (getWithLoader get cb k isWait c))"
proof -
  have lf: "P (snd (load_fn cb k s))" if s: "P s" "Q s" for s
    by (rule load_fn_keeps[where P = P]) (simp_all add: cb s)
  have "P (final (Do get k (load_fn cb k) isWait c))"
    by (rule Do_keeps[where P = P and Q = Q and get = get and k = k and c = c, OF grp get lf])
  then show ?thesis using assms(6) by (simp add: final_getWithLoader)
qed

lemma Do_no_panic:
  assumes "get k True c = Ret r s1"
  shows "Do get k fn isWait c \<noteq> Panics p s"
  using assms
  by (auto simp: Do_def Let_def split: option.splits prod.splits)

lemma getWithLoader_no_panic:
  assumes "get k True c = Ret r s1"
  shows "getWithLoader get cb k isWait c \<noteq> Panics p s"
  using Do_no_panic[where get = get and k = k and c = c, OF assms, of "load_fn cb k" isWait]
  by (auto simp: getWithLoader_def load_def split: outcome.splits prod.splits)


lemma set_MoveToFront: "set (MoveToFront k l) = set l"
  by (auto simp: MoveToFront_def set_remove1_insert)

lemma distinct_MoveToFront: "distinct l \<Longrightarrow> distinct (MoveToFront k l)"
  by (auto simp: MoveToFront_def)

lemma Len_MoveToFront: "Len (MoveToFront k l) = Len l"
  by (simp add: MoveToFront_def Len_remove1 Len_simps)

lemma arc_inv_frame:
  assumes "arc_inv c" and "csize c' = csize c" "t1 c' = t1 c" "t2 c' = t2 c" "b1 c' = b1 c" "b2 c' = b2 c"
    "arc_items c' = arc_items c"
  shows "arc_inv c'"
  using assms by (simp add: arc_inv_def arc_defs arc_map_keys_def)

lemma inv_t1_to_t2:
  assumes "arc_inv c" "k \<in> set (t1 c)"
    and "csize c' = csize c" "t1 c' = Remove k (t1 c)" "t2 c' = PushFront k (t2 c)"
    "b1 c' = b1 c" "b2 c' = b2 c" "arc_items c' = arc_items c"
  shows "arc_inv c'" "Len (t1 c') + Len (b1 c') \<le> Len (t1 c) + Len (b1 c)"
proof -
  have k: "k \<notin> set (t2 c)" "k \<notin> set (b1 c)" "k \<notin> set (b2 c)"
    and d: "distinct (t1 c)" "distinct (t2 c)"
    using assms(1,2) by (auto simp: arc_inv_def arc_defs)
  have t: "t2 c' = k # t2 c" using k assms(5) by (simp add: PushFront_new)
  have l: "Len (t1 c') = Len (t1 c) - 1" using assms(2,4) by (simp add: Len_Remove)
  show "arc_inv c'"
    using assms(1,2) k d l
    by (auto simp: arc_inv_def arc_defs arc_map_keys_def assms(3,6,7,8) t assms(4) set_Remove distinct_Remove Len_simps)
  show "Len (t1 c') + Len (b1 c') \<le> Len (t1 c) + Len (b1 c)"
    using l by (simp add: assms(6))
qed

lemma inv_t1_to_b1:
  assumes "arc_inv c" "k \<in> set (t1 c)"
    and "csize c' = csize c" "t1 c' = Remove k (t1 c)" "t2 c' = t2 c"
    "b1 c' = PushFront k (b1 c)" "b2 c' = b2 c" "arc_items c' = AList.delete k (arc_items c)"
  shows "arc_inv c'" "Len (t1 c') + Len (b1 c') \<le> Len (t1 c) + Len (b1 c)"
    "k \<notin> set (t1 c')" "k \<notin> set (t2 c')"
proof -
  have k: "k \<notin> set (t2 c)" "k \<notin> set (b1 c)" "k \<notin> set (b2 c)"
    and d: "distinct (t1 c)" "distinct (t2 c)"
    using assms(1,2) by (auto simp: arc_inv_def arc_defs)
  have t: "b1 c' = k # b1 c" using k assms(6) by (simp add: PushFront_new)
  have l: "Len (t1 c') = Len (t1 c) - 1" using assms(2,4) by (simp add: Len_Remove)
  show "arc_inv c'"
    using assms(1,2) k d l
    by (auto simp: arc_inv_def arc_defs arc_map_keys_def assms(3,5,7,8) t assms(4) set_Remove
        distinct_Remove Len_simps keys_delete distinct_delete)
  show "Len (t1 c') + Len (b1 c') \<le> Len (t1 c) + Len (b1 c)"
    using l by (simp add: t Len_simps)
  show "k \<notin> set (t1 c')" "k \<notin> set (t2 c')"
    using k d by (simp_all add: assms(4,5) set_Remove)
qed

lemma inv_t2_front:
  assumes "arc_inv c"
    and "csize c' = csize c" "t1 c' = t1 c" "t2 c' = MoveToFront k (t2 c)"
    "b1 c' = b1 c" "b2 c' = b2 c" "arc_items c' = arc_items c"
  shows "arc_inv c'"
  using assms(1)
  by (simp add: arc_inv_def arc_defs arc_map_keys_def assms(2-7) set_MoveToFront distinct_MoveToFront
      Len_MoveToFront)

lemma inv_t2_to_b2:
  assumes "arc_inv c" "k \<in> set (t2 c)"
    and "csize c' = csize c" "t1 c' = t1 c" "t2 c' = Remove k (t2 c)"
    "b1 c' = b1 c" "b2 c' = PushFront k (b2 c)" "arc_items c' = AList.delete k (arc_items c)"
  shows "arc_inv c'" "k \<notin> set (t1 c')" "k \<notin> set (t2 c')"
proof -
  have k: "k \<notin> set (t1 c)" "k \<notin> set (b1 c)" "k \<notin> set (b2 c)"
    and d: "distinct (t1 c)" "distinct (t2 c)"
    using assms(1,2) by (auto simp: arc_inv_def arc_defs)
  have t: "b2 c' = k # b2 c" using k assms(7) by (simp add: PushFront_new)
  have l: "Len (t2 c') = Len (t2 c) - 1" using assms(2,5) by (simp add: Len_Remove)
  show "arc_inv c'"
    using assms(1,2) k d l
    by (auto simp: arc_inv_def arc_defs arc_map_keys_def assms(3,4,6,8) t assms(5) set_Remove
        distinct_Remove Len_simps keys_delete distinct_delete)
  show "k \<notin> set (t1 c')" "k \<notin> set (t2 c')"
    using k d by (simp_all add: assms(4,5) set_Remove)
qed


lemma arc_item_exists:
  assumes "arc_inv c" "k \<in> set (t1 c) \<union> set (t2 c)"
  obtains item where "map_of (arc_items c) k = Some item"
proof -
  have "k \<in> fst ` set (arc_items c)"
    using assms by (simp add: arc_inv_def arc_map_keys_def)
  then have "map_of (arc_items c) k \<noteq> None"
    by (simp add: map_of_eq_None_iff)
  then show ?thesis using that by blast
qed


lemma ARC_getValue_t2_keeps:
  assumes inv: "arc_inv c" and nt1: "k \<notin> set (t1 c)"
  obtains r c1 where "ARC_getValue_t2 wall k onLoad c = Ret r c1" and "arc_inv c1"
    and "csize c1 = csize c" "group c1 = group c" "loaderExpireFunc c1 = loaderExpireFunc c"
    and "Len (t1 c1) + Len (b1 c1) \<le> Len (t1 c) + Len (b1 c)"
    and "(\<exists>v. r = (Some v, None)) \<or> (r = (None, Some KeyNotFoundError) \<and> k \<notin> set (t1 c1) \<and> k \<notin> set (t2 c1))"
    and "one_lookup onLoad (snd r = None) (stats c) (stats c1)"
proof (cases "k \<in> set (t2 c)")
  case False
  show ?thesis
    by (rule that[of "(None, Some KeyNotFoundError)" "count_miss onLoad c"])
      (use False nt1 inv in \<open>auto simp: ARC_getValue_t2_def Has_def count_miss_def one_lookup_def
         intro: arc_inv_frame[OF inv]\<close>)
next
  case True
  then obtain item where item: "map_of (arc_items c) k = Some item"
    using arc_item_exists[OF inv, of k] by auto
  show ?thesis
  proof (cases "IsExpired (Now (clock c) wall) None item")
    case False
    let ?c1 = "count_hit onLoad (c\<lparr>t2 := MoveToFront k (t2 c)\<rparr>)"
    have run: "ARC_getValue_t2 wall k onLoad c = Ret (Some (val item), None) ?c1"
      using True item False by (simp add: ARC_getValue_t2_def Has_def)
    have i: "arc_inv ?c1"
      by (rule inv_t2_front[OF inv, of _ k]) (simp_all add: count_hit_def)
    show ?thesis
      by (rule that[OF run i]) (simp_all add: count_hit_def one_lookup_def)
  next
    case exp: True
    let ?c1 = "count_miss onLoad (call_evictedFunc (key item) (val item)
      (c\<lparr>arc_items := AList.delete k (arc_items c), t2 := Remove k (t2 c), b2 := PushFront k (b2 c)\<rparr>))"
    have run: "ARC_getValue_t2 wall k onLoad c = Ret (None, Some KeyNotFoundError) ?c1"
      using True item exp by (simp add: ARC_getValue_t2_def Has_def)
    have i: "arc_inv ?c1" "k \<notin> set (t1 ?c1)" "k \<notin> set (t2 ?c1)"
      by (rule inv_t2_to_b2[OF inv True]; simp add: count_miss_def call_evictedFunc_def)+
    show ?thesis
      by (rule that[OF run i(1)]) (use i(2,3) in \<open>simp_all add: count_miss_def call_evictedFunc_def one_lookup_def\<close>)
  qed
qed

lemma ARC_getValue_keeps:
  assumes inv: "arc_inv c"
  obtains r c1 where "ARC_getValue wall k onLoad c = Ret r c1" and "arc_inv c1"
    and "csize c1 = csize c" "group c1 = group c" "loaderExpireFunc c1 = loaderExpireFunc c"
    and "Len (t1 c1) + Len (b1 c1) \<le> Len (t1 c) + Len (b1 c)"
    and "(\<exists>v. r = (Some v, None)) \<or> (r = (None, Some KeyNotFoundError) \<and> k \<notin> set (t1 c1) \<and> k \<notin> set (t2 c1))"
    and "one_lookup onLoad (snd r = None) (stats c) (stats c1)"
proof (cases "k \<in> set (t1 c)")
  case False
  have run: "ARC_getValue wall k onLoad c = ARC_getValue_t2 wall k onLoad c"
    using False by (simp add: ARC_getValue_def Has_def)
  show ?thesis
    by (rule ARC_getValue_t2_keeps[OF inv False, of wall onLoad]) (rule that, simp_all add: run)
next
  case True
  then obtain item where item: "map_of (arc_items c) k = Some item"
    using arc_item_exists[OF inv, of k] by auto
  show ?thesis
  proof (cases "IsExpired (Now (clock c) wall) None item")
    case False
    let ?c1 = "count_hit onLoad (c\<lparr>t1 := Remove k (t1 c), t2 := PushFront k (t2 c)\<rparr>)"
    have run: "ARC_getValue wall k onLoad c = Ret (Some (val item), None) ?c1"
      using True item False by (simp add: ARC_getValue_def Has_def Let_def)
    have i: "arc_inv ?c1" "Len (t1 ?c1) + Len (b1 ?c1) \<le> Len (t1 c) + Len (b1 c)"
      by (rule inv_t1_to_t2[OF inv True]; simp add: count_hit_def)+
    show ?thesis
      by (rule that[OF run i(1)]) (use i(2) in \<open>simp_all add: count_hit_def one_lookup_def\<close>)
  next
    case exp: True
    let ?c2 = "call_evictedFunc (key item) (val item)
      (c\<lparr>t1 := Remove k (t1 c), arc_items := AList.delete k (arc_items c), b1 := PushFront k (b1 c)\<rparr>)"
    have run: "ARC_getValue wall k onLoad c = ARC_getValue_t2 wall k onLoad ?c2"
      using True item exp by (simp add: ARC_getValue_def Has_def Let_def)
    have i: "arc_inv ?c2" "Len (t1 ?c2) + Len (b1 ?c2) \<le> Len (t1 c) + Len (b1 c)"
      "k \<notin> set (t1 ?c2)" "k \<notin> set (t2 ?c2)"
      by (rule inv_t1_to_b1[OF inv True]; simp add: call_evictedFunc_def)+
    have f: "csize ?c2 = csize c" "group ?c2 = group c" "loaderExpireFunc ?c2 = loaderExpireFunc c"
      "stats ?c2 = stats c"
      by (simp_all add: call_evictedFunc_def)
    have miss: "ARC_getValue_t2 wall k onLoad ?c2 = Ret (None, Some KeyNotFoundError) (count_miss onLoad ?c2)"
      using i(4) by (simp add: ARC_getValue_t2_def Has_def)
    have j: "arc_inv (count_miss onLoad ?c2)"
      by (rule arc_inv_frame[OF i(1)]) (simp_all add: count_miss_def)
    show ?thesis
      by (rule that[of "(None, Some KeyNotFoundError)" "count_miss onLoad ?c2"])
        (use run miss j i(2,3,4) f in \<open>simp_all add: count_miss_def one_lookup_def\<close>)
  qed
qed

lemma ARC_get_keeps:
  assumes inv: "arc_inv c"
  obtains r c1 where "ARC_get wall k onLoad c = Ret r c1" and "arc_inv c1"
    and "csize c1 = csize c" "group c1 = group c" "loaderExpireFunc c1 = loaderExpireFunc c"
    and "Len (t1 c1) + Len (b1 c1) \<le> Len (t1 c) + Len (b1 c)"
    and "(\<exists>v. r = (Some v, None)) \<or> (r = (None, Some KeyNotFoundError) \<and> k \<notin> set (t1 c1) \<and> k \<notin> set (t2 c1))"
    and "one_lookup onLoad (snd r = None) (stats c) (stats c1)"
proof (rule ARC_getValue_keeps[OF inv, of wall k onLoad], goal_cases)
  case g: (1 r c1)
  have run: "ARC_get wall k onLoad c = Ret r c1"
    using g(2,8) by (auto simp: ARC_get_def)
  show ?case
    by (rule that[OF run g(3-)])
qed

lemma ARC_remove_keeps:
  assumes inv: "arc_inv c"
  obtains b c1 where "ARC_remove k c = Ret b c1" and "arc_inv c1"
    and "csize c1 = csize c" "stats c1 = stats c"
    and "Len (t1 c1) + Len (b1 c1) \<le> Len (t1 c) + Len (b1 c)"
    and "b \<longleftrightarrow> k \<in> set (t1 c) \<union> set (t2 c)"
proof -
  consider (in1) "k \<in> set (t1 c)" | (in2) "k \<notin> set (t1 c)" "k \<in> set (t2 c)"
    | (out) "k \<notin> set (t1 c)" "k \<notin> set (t2 c)"
    by blast
  then show ?thesis
  proof cases
    case in1
    then obtain item where item: "map_of (arc_items c) k = Some item"
      using arc_item_exists[OF inv, of k] by auto
    let ?c1 = "c\<lparr>t1 := Remove k (t1 c), arc_items := AList.delete k (arc_items c), b1 := PushFront k (b1 c)\<rparr>"
    let ?c2 = "if evictedFunc c then call_evictedFunc k (val item) ?c1 else ?c1"
    have run: "ARC_remove k c = Ret True ?c2"
      using in1 item by (simp add: ARC_remove_def Has_def Let_def)
    have i: "arc_inv ?c2" "Len (t1 ?c2) + Len (b1 ?c2) \<le> Len (t1 c) + Len (b1 c)"
      by (rule inv_t1_to_b1[OF inv in1]; simp add: call_evictedFunc_def)+
    show ?thesis
      by (rule that[OF run i(1)]) (use i(2) in1 in \<open>simp_all add: call_evictedFunc_def\<close>)
  next
    case in2
    then obtain item where item: "map_of (arc_items c) k = Some item"
      using arc_item_exists[OF inv, of k] by auto
    let ?c1 = "c\<lparr>t2 := Remove k (t2 c), arc_items := AList.delete k (arc_items c), b2 := PushFront k (b2 c)\<rparr>"
    let ?c2 = "if evictedFunc c then call_evictedFunc k (val item) ?c1 else ?c1"
    have run: "ARC_remove k c = Ret True ?c2"
      using in2 item by (simp add: ARC_remove_def Has_def Let_def)
    have i: "arc_inv ?c2"
      by (rule inv_t2_to_b2[OF inv in2(2)]; simp add: call_evictedFunc_def)
    show ?thesis
      by (rule that[OF run i(1)]) (use in2 in \<open>simp_all add: call_evictedFunc_def\<close>)
  next
    case out
    have run: "ARC_remove k c = Ret False c"
      using out by (simp add: ARC_remove_def Has_def)
    show ?thesis
      by (rule that[OF run inv]) (use out in simp_all)
  qed
qed

lemma ARC_expire_at_inv:
  assumes "arc_inv c"
  shows "arc_inv (ARC_expire_at k t c)"
proof (cases "map_of (arc_items c) k")
  case None
  then show ?thesis using assms by (simp add: ARC_expire_at_def)
next
  case (Some it)
  then have "k \<in> fst ` set (arc_items c)"
    using map_of_eq_None_iff[of "arc_items c" k] by auto
  then show ?thesis using assms Some
    by (auto simp: ARC_expire_at_def arc_inv_def arc_defs arc_map_keys_def dom_update distinct_update)
qed

lemma ARC_expire_at_fields:
  "t1 (ARC_expire_at k t c) = t1 c" "t2 (ARC_expire_at k t c) = t2 c"
  "b1 (ARC_expire_at k t c) = b1 c" "b2 (ARC_expire_at k t c) = b2 c"
  "csize (ARC_expire_at k t c) = csize c" "stats (ARC_expire_at k t c) = stats c"
  by (simp_all add: ARC_expire_at_def split: option.splits)

lemma ARC_cb_keeps:
  assumes "arc_inv s" "k \<notin> set (t1 s) \<and> k \<notin> set (t2 s)"
  shows "arc_inv (state_of (ARC_cb wall k r s))"
proof (cases r)
  case (Inl e)
  then show ?thesis using assms by (simp add: ARC_cb_def)
next
  case (Inr p)
  obtain v exp where p: "p = (v, exp)" by (cases p)
  from assms obtain item c1 where s: "ARC_set wall k v s = Ret item c1" "arc_inv c1"
    by (rule_tac ARC_set_keeps[of s k wall v]) auto
  show ?thesis using s Inr p
    by (simp add: ARC_cb_def ARC_expire_at_inv split: option.splits)
qed

lemma arc_inv_group: "arc_inv (s\<lparr>group := g\<rparr>) = arc_inv s"
  by (simp add: arc_inv_def arc_defs arc_map_keys_def)

lemma ARC_getWithLoader_keeps:
  assumes inv: "arc_inv c"
  shows "arc_inv (final (ARC_getWithLoader wall k isWait c))"
    and "ARC_getWithLoader wall k isWait c \<noteq> Panics p s"
proof -
  let ?Q = "\<lambda>s::('a, 'b) ARCCache. k \<notin> set (t1 s) \<and> k \<notin> set (t2 s)"
  obtain r c1 where g: "ARC_get wall k True c = Ret r c1" "arc_inv c1"
    "(\<exists>v. r = (Some v, None)) \<or> (r = (None, Some KeyNotFoundError) \<and> k \<notin> set (t1 c1) \<and> k \<notin> set (t2 c1))"
    by (rule ARC_get_keeps[OF inv, of wall k True]) blast
  have 1: "arc_inv (state_of (ARC_get wall k True c))" using g by simp
  have 2: "?Q (state_of (ARC_get wall k True c))" if "returned (ARC_get wall k True c) = Some (v, Some e)" for v e
    using g that by auto
  have 3: "arc_inv (state_of (ARC_cb wall k r s))" if "arc_inv s" "?Q s" for s r
    using that by (rule ARC_cb_keeps)
  show "arc_inv (final (ARC_getWithLoader wall k isWait c))"
    unfolding ARC_getWithLoader_def
    by (rule getWithLoader_keeps[where P = arc_inv and Q = ?Q and get = "ARC_get wall" and k = k and c = c])
      (simp_all add: arc_inv_group 1 2 3 inv)
  show "ARC_getWithLoader wall k isWait c \<noteq> Panics p s"
    unfolding ARC_getWithLoader_def
    by (rule getWithLoader_no_panic[where get = "ARC_get wall" and k = k and c = c, OF g(1)])
qed

lemma ARC_Get_keeps:
  assumes inv: "arc_inv c"
  shows "arc_inv (final (ARC_Get wall k c))" and "ARC_Get wall k c \<noteq> Panics p s"
proof -
  obtain r c1 where g: "ARC_get wall k False c = Ret r c1" "arc_inv c1"
    by (rule ARC_get_keeps[OF inv, of wall k False]) blast
  obtain v err where r: "r = (v, err)" by (cases r)
  show "arc_inv (final (ARC_Get wall k c))"
    using g r ARC_getWithLoader_keeps(1)[OF g(2), of wall k True] by (simp add: ARC_Get_def)
  show "ARC_Get wall k c \<noteq> Panics p s"
    using g r ARC_getWithLoader_keeps(2)[OF g(2), of wall k True p s] by (simp add: ARC_Get_def)
qed

lemma ARC_GetIfPresent_keeps:
  assumes inv: "arc_inv c"
  shows "arc_inv (final (ARC_GetIfPresent wall k c))" and "ARC_GetIfPresent wall k c \<noteq> Panics p s"
proof -
  obtain r c1 where g: "ARC_get wall k False c = Ret r c1" "arc_inv c1"
    by (rule ARC_get_keeps[OF inv, of wall k False]) blast
  obtain v err where r: "r = (v, err)" by (cases r)
  show "arc_inv (final (ARC_GetIfPresent wall k c))"
    using g r ARC_getWithLoader_keeps(1)[OF g(2), of wall k False] by (simp add: ARC_GetIfPresent_def)
  show "ARC_GetIfPresent wall k c \<noteq> Panics p s"
    using g r ARC_getWithLoader_keeps(2)[OF g(2), of wall k False p s] by (simp add: ARC_GetIfPresent_def)
qed

lemma ARC_background_keeps:
  assumes inv: "arc_inv c" and "k \<notin> set (t1 c) \<and> k \<notin> set (t2 c)"
  shows "arc_inv (ARC_background wall k c)"
proof -
  have "arc_inv (snd (load_fn (ARC_cb wall k) k c))"
    by (rule load_fn_keeps[where P = arc_inv]) (simp_all add: ARC_cb_keeps assms)
  then show ?thesis
    unfolding ARC_background_def
    by (rule Group_call_keeps[where P = arc_inv, OF arc_inv_group])
qed



lemma under_lock_frame: "(final (under_lock acquire release body c))\<lparr>mu := mu c\<rparr> = c"
  by (auto simp: under_lock_def Let_def split: option.splits sum.splits)

lemma under_lock_read:
  assumes "mu c = unlocked"
  shows "under_lock RLock RUnlock body c = Returns (body (c\<lparr>mu := \<lparr>readers = 1, writer = False\<rparr>\<rparr>)) c"
  using assms by (simp add: under_lock_def unlocked_def RLock_def RUnlock_def Let_def)

lemma under_lock_write:
  assumes "mu c = unlocked"
  shows "under_lock Lock Unlock body c = Returns (body (c\<lparr>mu := \<lparr>readers = 0, writer = True\<rparr>\<rparr>)) c"
  using assms by (simp add: under_lock_def unlocked_def Lock_def Unlock_def Let_def)

lemma under_lock_mismatch:
  "value_of (under_lock RLock Unlock body c) = None"
  by (auto simp: under_lock_def RLock_def Unlock_def Let_def split: option.splits sum.splits)

lemma under_lock_mismatch_fatal:
  assumes "mu c = unlocked"
  shows "under_lock RLock Unlock body c = Panics UnlockOfUnlockedRWMutex (c\<lparr>mu := \<lparr>readers = 1, writer = False\<rparr>\<rparr>)"
  using assms by (simp add: under_lock_def unlocked_def RLock_def Unlock_def Let_def)

lemmas query_defs = Simple_GetALL_def Simple_Keys_def Simple_Len_def Simple_Has_def
  LRU_GetALL_def LRU_Keys_def LRU_Len_def LRU_Has_def
  LFU_GetALL_def LFU_Keys_def LFU_Len_def LFU_Has_def
  ARC_GetALL_def ARC_Keys_def ARC_Len_def ARC_Has_def



lemma simple_ex_eq:
  "simple_ex = \<lparr>clock = FakeClock 0, csize = 2, loaderExpireFunc = None, evictedFunc = True,
     addedFunc = False, cexpiration = None, mu = unlocked, group = Map.empty,
     stats = \<lparr>hitCount = 0, missCount = 0\<rparr>, calls = [],
     simple_items = [(1, \<lparr>val = 10, expiration = Some 5\<rparr>)]\<rparr>"
  by (simp add: simple_ex_def base_fake_def buildCache_def newSimpleCache_def Simple_SetWithExpire_def
      Simple_set_def Simple_expire_at_def call_addedFunc_def unlocked_def Let_def)

lemma lru_ex_eq:
  "lru_ex = \<lparr>clock = FakeClock 0, csize = 2, loaderExpireFunc = None, evictedFunc = True,
     addedFunc = False, cexpiration = None, mu = unlocked, group = Map.empty,
     stats = \<lparr>hitCount = 0, missCount = 0\<rparr>, calls = [],
     lru_items = [(1, \<lparr>val = 10, expiration = Some 5, key = 1\<rparr>)], evictList = [1]\<rparr>"
  by (simp add: lru_ex_def base_fake_def buildCache_def newLRUCache_def LRU_SetWithExpire_def
      LRU_set_def LRU_expire_at_def call_addedFunc_def unlocked_def Let_def Len_def)

lemma lfu_ex_eq:
  "lfu_ex = \<lparr>clock = FakeClock 0, csize = 2, loaderExpireFunc = None, evictedFunc = True,
     addedFunc = False, cexpiration = None, mu = unlocked, group = Map.empty,
     stats = \<lparr>hitCount = 0, missCount = 0\<rparr>, calls = [],
     lfu_items = [(1, \<lparr>val = 10, expiration = Some 5, key = 1, freqElement = 0\<rparr>)],
     freqList = [(0, \<lparr>freq = 0, members = [1]\<rparr>)]\<rparr>"
  by (simp add: lfu_ex_def base_fake_def buildCache_def newLFUCache_def LFU_SetWithExpire_def
      LFU_set_def LFU_expire_at_def call_addedFunc_def unlocked_def Let_def)

lemma arc_ex_eq:
  "arc_ex = \<lparr>clock = FakeClock 0, csize = 2, loaderExpireFunc = None, evictedFunc = True,
     addedFunc = False, cexpiration = None, mu = unlocked, group = Map.empty,
     stats = \<lparr>hitCount = 0, missCount = 0\<rparr>, calls = [],
     arc_items = [(1, \<lparr>val = 10, expiration = Some 5, key = 1\<rparr>)], part = 0,
     t1 = [1], t2 = [], b1 = [], b2 = []\<rparr>"
  by (simp add: arc_ex_def base_fake_def ARC_SetWithExpire_def ARC_expire_at_def arc_eval unlocked_def)

lemma ex_unlocked: "mu simple_ex = unlocked" "mu lru_ex = unlocked" "mu lfu_ex = unlocked" "mu arc_ex = unlocked"
  by (simp_all add: simple_ex_eq lru_ex_eq lfu_ex_eq arc_ex_eq)

lemmas query_eval = has_def keys_of_def len_of_def getall_of_def len_of_items_def IsExpired_def


section \<open>C10: replace never pops an empty list\<close>

text \<open>
  C10. In an ARC cache of positive size, when \<open>replace\<close> is past its guard (the resident lists
  hold exactly \<open>size\<close> keys), the list chosen by each of its three branches is not empty, so
  \<open>RemoveTail\<close> finds a tail there and \<open>replace\<close> returns without the nil dereference.
\<close>

theorem replace_pops_nonempty:
  assumes "0 < csize c" and "isCacheFull c"
  shows "(replace_victim k c = FromT1 \<longrightarrow> RemoveTail (t1 c) \<noteq> None)
       \<and> (replace_victim k c = FromT2 \<longrightarrow> RemoveTail (t2 c) \<noteq> None)
       \<and> (replace_victim k c = FallbackT1 \<longrightarrow> RemoveTail (t1 c) \<noteq> None)
       \<and> (\<exists>c'. replace k c = Ret () c')"
proof -
  have v2: "t2 c \<noteq> []" if "replace_victim k c = FromT2"
    using that by (auto simp: replace_victim_def Len_def split: if_splits)
  have v1: "t1 c \<noteq> []" if "replace_victim k c \<noteq> FromT2"
    using that assms by (auto simp: replace_victim_def isCacheFull_def Len_def split: if_splits)
  have "\<exists>c'. replace k c = Ret () c'"
  proof (cases "replace_victim k c = FromT2")
    case True
    with v2 obtain x l where "RemoveTail (t2 c) = Some (x, l)"
      by (auto simp: RemoveTail_def)
    with True assms show ?thesis by (simp add: replace_def)
  next
    case False
    with v1 obtain x l where "RemoveTail (t1 c) = Some (x, l)"
      by (auto simp: RemoveTail_def)
    with False assms show ?thesis by (cases "replace_victim k c") (simp_all add: replace_def)
  qed
  with v1 v2 show ?thesis by (auto simp: RemoveTail_None)
qed

theorem replace_pops_nonempty_witness:
  "0 < csize arc_one \<and> isCacheFull arc_one \<and> replace_victim 2 arc_one = FromT1
     \<and> RemoveTail (t1 arc_one) \<noteq> None \<and> returned (replace 2 arc_one) = Some ()"
  using replace_pops_nonempty[of arc_one 2]
  by (simp add: arc_one_eq replace_def replace_victim_def isCacheFull_def Len_def RemoveTail_def
      delete_item_def call_evictedFunc_def PushFront_def)


section \<open>C1: the invariants of the ARC lists\<close>

text \<open>
  C1, as amended. In an ARC cache of positive size whose lists and map hold no key twice, the
  operations keep four of the five invariants: the four lists are pairwise disjoint, T1 and T2
  together hold at most \<open>size\<close> keys, the four lists together at most twice \<open>size\<close>, and the keys
  of the map are those of T1 and T2. This holds for \<open>Set\<close> and \<open>SetWithExpire\<close> of a key that is not
  resident, for \<open>Get\<close> and \<open>GetIfPresent\<close> with any loader (which also never panic), for the
  goroutine of a deferred load of a key that is not resident, and for \<open>Remove\<close>. The bound on T1
  and B1 is kept by \<open>Remove\<close>, and by \<open>Set\<close> when the cache is full or the bound is not yet reached.
\<close>

theorem arc_invariants_kept:
  assumes "arc_inv c"
  shows "(k \<notin> set (t1 c) \<union> set (t2 c) \<longrightarrow>
            (\<exists>c1. ARC_Set wall k v c = Ret None c1 \<and> arc_inv c1
               \<and> (arc_l1_bound c \<and> (isCacheFull c \<or> Len (t1 c) + Len (b1 c) < csize c) \<longrightarrow> arc_l1_bound c1)))
       \<and> (k \<notin> set (t1 c) \<union> set (t2 c) \<longrightarrow>
            (\<exists>c1. ARC_SetWithExpire wall k v d c = Ret None c1 \<and> arc_inv c1))
       \<and> arc_inv (final (ARC_Get wall k c)) \<and> panic_of (ARC_Get wall k c) = None
       \<and> arc_inv (final (ARC_GetIfPresent wall k c)) \<and> panic_of (ARC_GetIfPresent wall k c) = None
       \<and> (k \<notin> set (t1 c) \<union> set (t2 c) \<longrightarrow> arc_inv (ARC_background wall k c))
       \<and> (\<exists>b c1. ARC_Remove k c = Ret b c1 \<and> arc_inv c1 \<and> (arc_l1_bound c \<longrightarrow> arc_l1_bound c1))"
proof -
  have set: "\<exists>c1. ARC_Set wall k v c = Ret None c1 \<and> arc_inv c1
       \<and> (arc_l1_bound c \<and> (isCacheFull c \<or> Len (t1 c) + Len (b1 c) < csize c) \<longrightarrow> arc_l1_bound c1)"
    and setx: "\<exists>c1. ARC_SetWithExpire wall k v d c = Ret None c1 \<and> arc_inv c1"
    if new: "k \<notin> set (t1 c) \<union> set (t2 c)"
  proof -
    from assms new obtain item c1 where s: "ARC_set wall k v c = Ret item c1" "arc_inv c1"
      "arc_l1_bound c \<and> (isCacheFull c \<or> Len (t1 c) + Len (b1 c) < csize c) \<longrightarrow> arc_l1_bound c1"
      by (rule_tac ARC_set_keeps[of c k wall v]) auto
    show "\<exists>c1. ARC_Set wall k v c = Ret None c1 \<and> arc_inv c1
       \<and> (arc_l1_bound c \<and> (isCacheFull c \<or> Len (t1 c) + Len (b1 c) < csize c) \<longrightarrow> arc_l1_bound c1)"
      using s by (simp add: ARC_Set_def)
    show "\<exists>c1. ARC_SetWithExpire wall k v d c = Ret None c1 \<and> arc_inv c1"
      using s by (simp add: ARC_SetWithExpire_def ARC_expire_at_inv)
  qed
  have get: "arc_inv (final (ARC_Get wall k c))" "panic_of (ARC_Get wall k c) = None"
    using ARC_Get_keeps[OF assms, of wall k] by (cases "ARC_Get wall k c"; simp)+
  have gip: "arc_inv (final (ARC_GetIfPresent wall k c))" "panic_of (ARC_GetIfPresent wall k c) = None"
    using ARC_GetIfPresent_keeps[OF assms, of wall k] by (cases "ARC_GetIfPresent wall k c"; simp)+
  have bg: "arc_inv (ARC_background wall k c)" if "k \<notin> set (t1 c) \<union> set (t2 c)"
    using that by (intro ARC_background_keeps assms) simp
  have rm: "\<exists>b c1. ARC_Remove k c = Ret b c1 \<and> arc_inv c1 \<and> (arc_l1_bound c \<longrightarrow> arc_l1_bound c1)"
  proof (rule ARC_remove_keeps[OF assms, of k], goal_cases)
    case (1 b c1)
    then show ?case by (auto simp: ARC_Remove_def arc_l1_bound_def)
  qed
  show ?thesis
    using get gip rm by (intro conjI impI) (simp_all add: set setx bg)
qed

lemma arc_one_inv: "arc_inv arc_one"
  by (simp add: arc_one_eq arc_inv_def arc_distinct_def arc_disjoint_def arc_resident_bound_def
      arc_total_bound_def arc_map_keys_def Len_def)

theorem arc_invariants_kept_witness:
  "arc_inv arc_one \<and> 2 \<notin> set (t1 arc_one) \<union> set (t2 arc_one)
     \<and> arc_inv (state_of (ARC_Set 0 2 20 arc_one))
     \<and> arc_inv (state_of (ARC_SetWithExpire 0 2 20 5 arc_one))
     \<and> arc_inv (final (ARC_Get 0 1 arc_one)) \<and> arc_inv (final (ARC_GetIfPresent 0 1 arc_one))
     \<and> arc_inv (ARC_background 0 2 arc_one)
     \<and> arc_inv (state_of (ARC_Remove 1 arc_one))"
proof -
  have new: "2 \<notin> set (t1 arc_one) \<union> set (t2 arc_one)"
    by (simp add: arc_one_eq)
  have a: "arc_inv (state_of (ARC_Set 0 2 20 arc_one))"
    "arc_inv (state_of (ARC_SetWithExpire 0 2 20 5 arc_one))"
    "arc_inv (ARC_background 0 2 arc_one)"
    using arc_invariants_kept[OF arc_one_inv, of 2 0 20 5] new by auto
  have b: "arc_inv (final (ARC_Get 0 1 arc_one))" "arc_inv (final (ARC_GetIfPresent 0 1 arc_one))"
    "arc_inv (state_of (ARC_Remove 1 arc_one))"
    using arc_invariants_kept[OF arc_one_inv, of 1 0 20 5] by auto
  show ?thesis
    using a b arc_one_inv new by simp
qed

text \<open>
  The claim as stated fails for the third invariant: after \<^verbatim>\<open>Set(1, 10)\<close> and \<^verbatim>\<open>Remove(1)\<close> on a
  cache of size 1 the five invariants hold, and \<^verbatim>\<open>Set(2, 20)\<close> returns with T1 and B1 holding
  two keys.
\<close>

theorem arc_five_counterexample:
  "arc_five arc_removed \<and> returned (ARC_Set 0 2 20 arc_removed) = Some None
     \<and> \<not> arc_five (state_of (ARC_Set 0 2 20 arc_removed))
     \<and> Len (t1 (state_of (ARC_Set 0 2 20 arc_removed))) + Len (b1 (state_of (ARC_Set 0 2 20 arc_removed))) = 2"
  by (simp add: arc_removed_eq arc_five_def arc_disjoint_def arc_resident_bound_def arc_l1_bound_def
      arc_total_bound_def arc_map_keys_def arc_eval)


section \<open>C3: the case "L1 full" of set\<close>

text \<open>
  C3, as amended. In \<open>set\<close> of a key that is in none of the four lists, when the cache is full
  (T1 and T2 together hold \<open>size\<close> keys) and T1 and B1 together hold \<open>size\<close> keys, the code does
  what the specification says for "L1 full": if T1 is shorter than \<open>size\<close>, B1 is not empty, its
  tail is dropped and \<open>replace\<close> is called; otherwise T1 is not empty, its tail is dropped, the
  entry of that key is deleted from the map and the evicted callback, if configured, is called
  with the key and the value of the entry. Then the added callback is called and the key is
  pushed on T1.
\<close>

theorem ARC_set_L1_full:
  assumes "0 < csize c0"
    and "k \<notin> set (t1 c0) \<union> set (t2 c0) \<union> set (b1 c0) \<union> set (b2 c0)"
    and "isCacheFull c0" and "Len (t1 c0) + Len (b1 c0) = csize c0"
    and "ARC_upsert wall k v c0 = (item, c)"
  shows "ARC_set wall k v c0 =
           (case spec_L1_full k c of
              Panic p c1 \<Rightarrow> Panic p c1
            | Ret u c1 \<Rightarrow> Ret item ((call_addedFunc k v c1)\<lparr>t1 := PushFront k (t1 (call_addedFunc k v c1))\<rparr>))
       \<and> (Len (t1 c0) < csize c0 \<longrightarrow>
            (\<exists>old l. b1 c = l @ [old] \<and> spec_L1_full k c = replace k (c\<lparr>b1 := l\<rparr>)))
       \<and> (\<not> Len (t1 c0) < csize c0 \<longrightarrow>
            (\<exists>pop l. t1 c = l @ [pop]
               \<and> spec_L1_full k c = Ret () (delete_item pop (c\<lparr>t1 := l\<rparr>))
               \<and> map_of (arc_items (delete_item pop (c\<lparr>t1 := l\<rparr>))) pop = None
               \<and> (\<forall>it. map_of (arc_items c) pop = Some it \<and> evictedFunc c \<longrightarrow>
                     calls (delete_item pop (c\<lparr>t1 := l\<rparr>)) = calls c @ [Evicted (key it) (val it)])))"
proof -
  have same: "t1 c = t1 c0" "t2 c = t2 c0" "b1 c = b1 c0" "b2 c = b2 c0" "csize c = csize c0"
    using assms(5) by (auto simp: ARC_upsert_def Let_def split: option.splits)
  have full: "isCacheFull c" "Len (t1 c) + Len (b1 c) = csize c"
    using assms(3,4) by (simp_all add: isCacheFull_def same)
  have room: "ARC_set_room k c = spec_L1_full k c"
    using full by (simp add: ARC_set_room_def spec_L1_full_def)
  have new: "\<not> Has k (t1 c)" "\<not> Has k (t2 c)" "\<not> Has k (b1 c)" "\<not> Has k (b2 c)"
    using assms(2) by (simp_all add: Has_def same)
  have 1: "ARC_set wall k v c0 =
           (case spec_L1_full k c of
              Panic p c1 \<Rightarrow> Panic p c1
            | Ret u c1 \<Rightarrow> Ret item ((call_addedFunc k v c1)\<lparr>t1 := PushFront k (t1 (call_addedFunc k v c1))\<rparr>))"
    using assms(5) new by (cases "spec_L1_full k c") (simp_all add: ARC_set_def room Let_def)
  have 2: "\<exists>old l. b1 c = l @ [old] \<and> spec_L1_full k c = replace k (c\<lparr>b1 := l\<rparr>)"
    if lt: "Len (t1 c0) < csize c0"
  proof -
    have "b1 c \<noteq> []" using lt full(2) by (auto simp: same Len_def)
    then obtain l old where l: "b1 c = l @ [old]" by (cases "b1 c" rule: rev_cases) auto
    then show ?thesis using lt by (simp add: spec_L1_full_def same[symmetric] RemoveTail_snoc)
  qed
  have 3: "\<exists>pop l. t1 c = l @ [pop]
               \<and> spec_L1_full k c = Ret () (delete_item pop (c\<lparr>t1 := l\<rparr>))
               \<and> map_of (arc_items (delete_item pop (c\<lparr>t1 := l\<rparr>))) pop = None
               \<and> (\<forall>it. map_of (arc_items c) pop = Some it \<and> evictedFunc c \<longrightarrow>
                     calls (delete_item pop (c\<lparr>t1 := l\<rparr>)) = calls c @ [Evicted (key it) (val it)])"
    if ge: "\<not> Len (t1 c0) < csize c0"
  proof -
    have "t1 c \<noteq> []" using ge assms(1) by (auto simp: same Len_def)
    then obtain l pop where l: "t1 c = l @ [pop]" by (cases "t1 c" rule: rev_cases) auto
    have a: "spec_L1_full k c = Ret () (delete_item pop (c\<lparr>t1 := l\<rparr>))"
      using ge l by (simp add: spec_L1_full_def same[symmetric] RemoveTail_snoc)
    have b: "map_of (arc_items (delete_item pop (c\<lparr>t1 := l\<rparr>))) pop = None"
      by (simp add: delete_item_fields delete_conv')
    have d: "calls (delete_item pop (c\<lparr>t1 := l\<rparr>)) = calls c @ [Evicted (key it) (val it)]"
      if "map_of (arc_items c) pop = Some it" "evictedFunc c" for it
      using that by (simp add: delete_item_def call_evictedFunc_def)
    show ?thesis using l a b d by blast
  qed
  show ?thesis using 1 2 3 by (intro conjI impI) simp_all
qed

theorem ARC_set_L1_full_witness:
  "0 < csize arc_one \<and> 2 \<notin> set (t1 arc_one) \<union> set (t2 arc_one) \<union> set (b1 arc_one) \<union> set (b2 arc_one)
     \<and> isCacheFull arc_one \<and> Len (t1 arc_one) + Len (b1 arc_one) = csize arc_one
     \<and> \<not> Len (t1 arc_one) < csize arc_one
     \<and> t1 (state_of (ARC_set 0 2 20 arc_one)) = [2]
     \<and> map fst (arc_items (state_of (ARC_set 0 2 20 arc_one))) = [2]
     \<and> calls (state_of (ARC_set 0 2 20 arc_one)) = [Evicted 1 10]"
proof -
  let ?item = "\<lparr>val = 20, expiration = None, key = 2\<rparr> :: (nat, nat) arcItem"
  let ?U = "\<lparr>clock = FakeClock 0, csize = 1, loaderExpireFunc = None, evictedFunc = True,
     addedFunc = False, cexpiration = None, mu = \<lparr>readers = 0, writer = False\<rparr>, group = Map.empty,
     stats = \<lparr>hitCount = 0, missCount = 0\<rparr>, calls = [],
     arc_items = [(1, \<lparr>val = 10, expiration = None, key = 1\<rparr>), (2, ?item)], part = 0,
     t1 = [1], t2 = [], b1 = [], b2 = []\<rparr> :: (nat, nat) ARCCache"
  have h: "0 < csize arc_one"
    "2 \<notin> set (t1 arc_one) \<union> set (t2 arc_one) \<union> set (b1 arc_one) \<union> set (b2 arc_one)"
    "isCacheFull arc_one" "Len (t1 arc_one) + Len (b1 arc_one) = csize arc_one"
    by (simp_all add: arc_one_eq isCacheFull_def Len_def)
  have ge: "\<not> Len (t1 arc_one) < csize arc_one"
    by (simp add: arc_one_eq Len_def)
  have u: "ARC_upsert 0 2 20 arc_one = (?item, ?U)"
    by (simp add: arc_one_eq ARC_upsert_def Let_def)
  have s: "spec_L1_full 2 ?U = Ret () (?U\<lparr>calls := [Evicted 1 10], arc_items := [(2, ?item)], t1 := []\<rparr>)"
    by (simp add: spec_L1_full_def Len_def RemoveTail_def delete_item_def call_evictedFunc_def)
  have r: "ARC_set 0 2 20 arc_one =
      Ret ?item (?U\<lparr>calls := [Evicted 1 10], arc_items := [(2, ?item)], t1 := [2]\<rparr>)"
    using ARC_set_L1_full[OF h u, THEN conjunct1] unfolding s
    by (simp add: call_addedFunc_def PushFront_def)
  show ?thesis
    using h ge unfolding r by simp
qed


text \<open>
  The claim as stated, for every cache with T1 and B1 holding \<open>size\<close> keys, fails when the cache is
  not full: after \<^verbatim>\<open>Set(1, 10)\<close> and \<^verbatim>\<open>Remove(1)\<close> on a cache of size 1, T1 is empty and B1 holds
  the key 1; \<^verbatim>\<open>Set(2, 20)\<close> does not take the branch "L1 full" and leaves the tail of B1 in place.
\<close>

theorem ARC_set_L1_full_counterexample:
  "2 \<notin> set (t1 arc_removed) \<union> set (t2 arc_removed) \<union> set (b1 arc_removed) \<union> set (b2 arc_removed)
     \<and> Len (t1 arc_removed) + Len (b1 arc_removed) = csize arc_removed
     \<and> Len (t1 arc_removed) < csize arc_removed
     \<and> ARC_set_room 2 (snd (ARC_upsert 0 2 20 arc_removed)) \<noteq> spec_L1_full 2 (snd (ARC_upsert 0 2 20 arc_removed))
     \<and> b1 (state_of (ARC_set 0 2 20 arc_removed)) = [1]"
  by (simp add: arc_removed_eq arc_eval spec_L1_full_def)

section \<open>C8: the queries change nothing\<close>

text \<open>
  C8. In each of the four policies \<open>GetALL\<close>, \<open>Keys\<close>, \<open>Len\<close> and \<open>Has\<close> leave every field of the
  cache other than the lock as it was, whatever the outcome of the call: the map of entries, the
  LRU order, the LFU buckets, the ARC lists and both counters of the statistics. Called on a
  cache whose lock nobody holds, they also leave the lock as it was and return the value computed
  from the map at the time of the call, a list of their own; \<open>ARCCache.Has\<close> is the exception, see
  \<open>ARC_Has_never_returns\<close>.
\<close>

theorem queries_change_nothing:
  "(final (Simple_GetALL wall b sc))\<lparr>mu := mu sc\<rparr> = sc \<and> (final (Simple_Keys wall b sc))\<lparr>mu := mu sc\<rparr> = sc
   \<and> (final (Simple_Len wall b sc))\<lparr>mu := mu sc\<rparr> = sc \<and> (final (Simple_Has wall k sc))\<lparr>mu := mu sc\<rparr> = sc
   \<and> (final (LRU_GetALL wall b lru))\<lparr>mu := mu lru\<rparr> = lru \<and> (final (LRU_Keys wall b lru))\<lparr>mu := mu lru\<rparr> = lru
   \<and> (final (LRU_Len wall b lru))\<lparr>mu := mu lru\<rparr> = lru \<and> (final (LRU_Has wall k lru))\<lparr>mu := mu lru\<rparr> = lru
   \<and> (final (LFU_GetALL wall b lfu))\<lparr>mu := mu lfu\<rparr> = lfu \<and> (final (LFU_Keys wall b lfu))\<lparr>mu := mu lfu\<rparr> = lfu
   \<and> (final (LFU_Len wall b lfu))\<lparr>mu := mu lfu\<rparr> = lfu \<and> (final (LFU_Has wall k lfu))\<lparr>mu := mu lfu\<rparr> = lfu
   \<and> (final (ARC_GetALL wall b arc))\<lparr>mu := mu arc\<rparr> = arc \<and> (final (ARC_Keys wall b arc))\<lparr>mu := mu arc\<rparr> = arc
   \<and> (final (ARC_Len wall b arc))\<lparr>mu := mu arc\<rparr> = arc \<and> (final (ARC_Has wall k arc))\<lparr>mu := mu arc\<rparr> = arc
   \<and> (mu sc = unlocked \<longrightarrow>
         Simple_GetALL wall b sc = Returns (getall_of (simple_items sc) b wall) sc
       \<and> Simple_Keys wall b sc = Returns (keys_of (simple_items sc) b wall) sc
       \<and> Simple_Len wall b sc = Returns (len_of (simple_items sc) b wall) sc
       \<and> Simple_Has wall k sc = Returns (has (simple_items sc) k wall) sc)
   \<and> (mu lru = unlocked \<longrightarrow>
         LRU_GetALL wall b lru = Returns (getall_of (lru_items lru) b wall) lru
       \<and> LRU_Keys wall b lru = Returns (keys_of (lru_items lru) b wall) lru
       \<and> LRU_Len wall b lru = Returns (len_of (lru_items lru) b wall) lru
       \<and> LRU_Has wall k lru = Returns (has (lru_items lru) k wall) lru)
   \<and> (mu lfu = unlocked \<longrightarrow>
         LFU_GetALL wall b lfu = Returns (getall_of (lfu_items lfu) b wall) lfu
       \<and> LFU_Keys wall b lfu = Returns (keys_of (lfu_items lfu) b wall) lfu
       \<and> LFU_Len wall b lfu = Returns (len_of_items (lfu_items lfu) b wall) lfu
       \<and> LFU_Has wall k lfu = Returns (has (lfu_items lfu) k wall) lfu)
   \<and> (mu arc = unlocked \<longrightarrow>
         ARC_GetALL wall b arc = Returns (getall_of (arc_items arc) b wall) arc
       \<and> ARC_Keys wall b arc = Returns (keys_of (arc_items arc) b wall) arc
       \<and> ARC_Len wall b arc = Returns (len_of (arc_items arc) b wall) arc)"
  by (simp add: query_defs under_lock_frame under_lock_read under_lock_write)

text \<open>\<^verbatim>\<open>ARCCache.Has\<close> takes the read lock and defers \<^verbatim>\<open>Unlock\<close>, the release of the write lock:
  the call never returns, and on a free lock it ends in the fatal error of the runtime.\<close>

lemma ARC_Has_never_returns:
  "value_of (ARC_Has wall k c) = None"
  "mu c = unlocked \<Longrightarrow> panic_of (ARC_Has wall k c) = Some UnlockOfUnlockedRWMutex"
  by (simp_all add: ARC_Has_def under_lock_mismatch under_lock_mismatch_fatal)

theorem queries_change_nothing_witness:
  "mu simple_ex = unlocked \<and> mu lru_ex = unlocked \<and> mu lfu_ex = unlocked \<and> mu arc_ex = unlocked
     \<and> Simple_Len 1000 False simple_ex = Returns 1 simple_ex
     \<and> LRU_Keys 1000 False lru_ex = Returns [1] lru_ex
     \<and> LFU_Has 1000 1 lfu_ex = Returns False lfu_ex
     \<and> ARC_GetALL 1000 False arc_ex = Returns [(1, 10)] arc_ex
     \<and> (final (ARC_Has 1000 1 arc_ex))\<lparr>mu := mu arc_ex\<rparr> = arc_ex"
proof -
  have v: "len_of (simple_items simple_ex) False 1000 = 1" "keys_of (lru_items lru_ex) False 1000 = [1]"
    "has (lfu_items lfu_ex) 1 1000 = False" "getall_of (arc_items arc_ex) False 1000 = [(1, 10)]"
    by (simp_all add: simple_ex_eq lru_ex_eq lfu_ex_eq arc_ex_eq query_eval)
  show ?thesis
    using queries_change_nothing[where wall = 1000 and b = False and sc = simple_ex and k = 1 and lru = lru_ex
        and lfu = lfu_ex and arc = arc_ex] ex_unlocked v
    by simp
qed


section \<open>C4: what Len, Keys and GetALL count\<close>

text \<open>
  What the code does. On a free lock, \<open>Len(false)\<close> is the number of entries of the map, in the
  four policies, and with \<open>checkExpired\<close> the three queries keep the entries whose expiration is
  not before \<open>wall\<close>, the reading of \<^verbatim>\<open>time.Now()\<close>; the configured clock is not read.
\<close>

lemma Len_false_counts_entries:
  assumes "mu sc = unlocked" "mu lru = unlocked" "mu lfu = unlocked" "mu arc = unlocked"
  shows "value_of (Simple_Len wall False sc) = Some (int (length (simple_items sc)))"
    and "value_of (LRU_Len wall False lru) = Some (int (length (lru_items lru)))"
    and "value_of (LFU_Len wall False lfu) = Some (int (length (lfu_items lfu)))"
    and "value_of (ARC_Len wall False arc) = Some (int (length (arc_items arc)))"
  using assms
  by (simp_all add: query_defs under_lock_read len_of_def len_of_items_def)

lemma has_wall_time:
  "has items k wall \<longleftrightarrow> (\<exists>item. map_of items k = Some item \<and> \<not> (\<exists>e. expiration item = Some e \<and> e < wall))"
  by (auto simp: has_def IsExpired_def split: option.splits)

text \<open>
  C4 fails on the code when the configured clock is not the wall clock. The caches below run on a
  fake clock that reads 0 and hold one entry that expires at time 5 of that clock, so the entry
  is not expired at the current time of the configured clock, and \<open>Get\<close> returns its value. With
  \<^verbatim>\<open>time.Now()\<close> reading 1000, \<open>Len(true)\<close> is 0 and \<open>Keys(true)\<close> and \<open>GetALL(true)\<close> are empty.
\<close>

theorem Len_reads_wall_clock_not_configured_clock:
  "Now (clock lru_ex) 1000 = 0
     \<and> map_of (lru_items lru_ex) 1 = Some \<lparr>val = 10, expiration = Some 5, key = 1\<rparr>
     \<and> \<not> IsExpired (Now (clock lru_ex) 1000) None \<lparr>val = 10, expiration = Some 5, key = 1 :: nat\<rparr>
     \<and> value_of (LRU_Get 1000 1 lru_ex) = Some (Some 10, None)
     \<and> value_of (LRU_Len 1000 False lru_ex) = Some 1
     \<and> value_of (LRU_Len 1000 True lru_ex) = Some 0
     \<and> value_of (LRU_Keys 1000 True lru_ex) = Some []
     \<and> value_of (LRU_GetALL 1000 True lru_ex) = Some []
     \<and> value_of (LRU_Has 1000 1 lru_ex) = Some False
     \<and> value_of (Simple_Get 1000 1 simple_ex) = Some (Some 10, None)
     \<and> value_of (Simple_Len 1000 True simple_ex) = Some 0
     \<and> value_of (LFU_Get 1000 1 lfu_ex) = Some (Some 10, None)
     \<and> value_of (LFU_Len 1000 True lfu_ex) = Some 0
     \<and> value_of (ARC_Get 1000 1 arc_ex) = Some (Some 10, None)
     \<and> value_of (ARC_Len 1000 True arc_ex) = Some 0"
proof -
  have q: "value_of (LRU_Len 1000 False lru_ex) = Some 1" "value_of (LRU_Len 1000 True lru_ex) = Some 0"
    "value_of (LRU_Keys 1000 True lru_ex) = Some []" "value_of (LRU_GetALL 1000 True lru_ex) = Some []"
    "value_of (LRU_Has 1000 1 lru_ex) = Some False"
    "value_of (Simple_Len 1000 True simple_ex) = Some 0"
    "value_of (LFU_Len 1000 True lfu_ex) = Some 0"
    "value_of (ARC_Len 1000 True arc_ex) = Some 0"
    by (simp_all add: query_defs under_lock_read ex_unlocked)
      (simp_all add: simple_ex_eq lru_ex_eq lfu_ex_eq arc_ex_eq query_eval)
  have g1: "value_of (LRU_Get 1000 1 lru_ex) = Some (Some 10, None)"
    by (simp add: lru_ex_eq LRU_Get_def LRU_get_def LRU_getValue_def IsExpired_def count_hit_def MoveToFront_def)
  have g2: "value_of (Simple_Get 1000 1 simple_ex) = Some (Some 10, None)"
    by (simp add: simple_ex_eq Simple_Get_def Simple_get_def Simple_getValue_def IsExpired_def count_hit_def)
  have g3: "value_of (LFU_Get 1000 1 lfu_ex) = Some (Some 10, None)"
    by (simp add: lfu_ex_eq LFU_Get_def LFU_get_def LFU_getValue_def IsExpired_def count_hit_def
        LFU_increment_def no_bucket_def isRemovableFreqEntry_def new_element_def)
  have g4: "value_of (ARC_Get 1000 1 arc_ex) = Some (Some 10, None)"
    by (simp add: arc_ex_eq ARC_Get_def ARC_get_def ARC_getValue_def IsExpired_def count_hit_def
        Has_def Remove_def PushFront_def)
  show ?thesis
    using q g1 g2 g3 g4 by (simp add: lru_ex_eq IsExpired_def)
qed


end
